theory Spec2Isabelle
  imports Main "HOL-Library.AList" "HOL-Library.Sublist"
begin

section \<open>The explorer of the playground: a path-keyed map of files and folders\<close>

text \<open>
  The development embeds the classes \<open>Explorer\<close> and \<open>PgExplorer\<close> of the client's
  explorer module. \<open>Explorer\<close> keeps one JavaScript object, \<open>this._explorer.files\<close>,
  from paths to \<open>ItemInfo\<close> objects; \<open>PgExplorer\<close> holds the static path
  functions.

  \<^item> The object \<open>files\<close> is an association list with distinct keys, in the order in
    which \<open>for (const path in files)\<close> enumerates them. A path is absolute: it starts
    with a slash. Such a key is no array index, so a new key is enumerated last:
    \<open>files[k] = v\<close> overwrites in place when \<open>k\<close> is a key and appends otherwise
    (\<open>AList.update\<close>); \<open>delete files[k]\<close> is \<open>AList.delete\<close>. Such a key is
    no name that an object inherits either, so \<open>files[k]\<close> reads the object's own
    properties only.
  \<^item> A \<open>for ... in\<close> loop runs over the keys the object has when the loop begins; a
    key deleted before its turn is skipped, a key added during the loop is not visited.
  \<^item> A property can hold the value \<open>undefined\<close> (\<open>renameItem\<close> stores one when it
    is given a file path that is not a key), so a stored value is an \<open>entry\<close>:
    \<open>Undefined\<close> or an \<open>ItemInfo\<close> object.
  \<^item> Reading a property of \<open>undefined\<close> throws a \<open>TypeError\<close>; a method returns
    an \<open>outcome\<close> together with the map as the call left it.
\<close>

subsection \<open>Data\<close>

datatype ItemError = InvalidName | AlreadyExists

record ItemInfo =
  content :: "string option"
  current :: "bool option"
  tabs :: "bool option"

record FullFile = ItemInfo +
  path :: string

record Folder =
  folders :: "string list"
  files :: "string list"

datatype ItemType = IsFolder | IsFile

datatype entry = Undefined | Item ItemInfo

datatype 'a outcome = Returned 'a | TypeError

type_synonym Files = "(string \<times> entry) list"

text \<open>The object literal \<open>{}\<close>: every optional field absent.\<close>

definition emptyItem :: ItemInfo where
  "emptyItem = \<lparr>content = None, current = None, tabs = None\<rparr>"

text \<open>\<open>files[k]\<close>: \<open>undefined\<close> when \<open>k\<close> is not a key.\<close>

definition lookup :: "Files \<Rightarrow> string \<Rightarrow> entry" where
  "lookup fs k = (case map_of fs k of None \<Rightarrow> Undefined | Some e \<Rightarrow> e)"

text \<open>\<open>files[k].field = v\<close>: a \<open>TypeError\<close> (\<open>None\<close>) when \<open>files[k]\<close> is undefined.\<close>

definition assign :: "string \<Rightarrow> (ItemInfo \<Rightarrow> ItemInfo) \<Rightarrow> Files \<Rightarrow> Files option" where
  "assign k f fs =
     (case lookup fs k of
        Undefined \<Rightarrow> None
      | Item i \<Rightarrow> Some (AList.update k (Item (f i)) fs))"

subsection \<open>Strings\<close>

text \<open>\<open>s.startsWith(p)\<close> is \<open>prefix p s\<close>; \<open>s.endsWith("/")\<close>:\<close>

definition endsWithSlash :: "string \<Rightarrow> bool" where
  "endsWithSlash s = (s \<noteq> [] \<and> last s = CHR ''/'')"

text \<open>\<open>s.includes(sub)\<close>\<close>

fun includesStr :: "string \<Rightarrow> string \<Rightarrow> bool" where
  "includesStr [] sub = (sub = [])"
| "includesStr (c # cs) sub = (prefix sub (c # cs) \<or> includesStr cs sub)"

text \<open>
  \<open>s.split(sep)\<close> for a non-empty separator: the pieces between the leftmost
  non-overlapping occurrences of \<open>sep\<close>; \<open>"".split(sep)\<close> is \<open>[""]\<close>.
\<close>

fun split_at :: "string \<Rightarrow> string \<Rightarrow> string list" where
  "split_at sep [] = [[]]"
| "split_at sep (c # cs) =
     (if sep \<noteq> [] \<and> prefix sep (c # cs)
      then [] # split_at sep (drop (length sep) (c # cs))
      else (case split_at sep cs of
              [] \<Rightarrow> [[c]]
            | w # ws \<Rightarrow> (c # w) # ws))"

text \<open>\<open>s.split(sep)\<close>; the empty separator splits into the single characters.\<close>

definition split :: "string \<Rightarrow> string \<Rightarrow> string list" where
  "split s sep = (if sep = [] then map (\<lambda>c. [c]) s else split_at sep s)"

text \<open>\<open>arr[i]\<close> for a possibly negative index: \<open>None\<close> is \<open>undefined\<close>.\<close>

definition index :: "'a list \<Rightarrow> int \<Rightarrow> 'a option" where
  "index xs i = (if 0 \<le> i \<and> i < int (length xs) then Some (xs ! nat i) else None)"

text \<open>The keys of an array of length \<open>n\<close>, as \<open>for ... in\<close> enumerates them:
  \<open>"0"\<close>, \<open>"1"\<close>, ... in decimal.\<close>

fun decimal :: "nat \<Rightarrow> string" where
  "decimal n =
     (if n < 10 then [''0123456789'' ! n]
      else decimal (n div 10) @ [''0123456789'' ! (n mod 10)])"

definition array_keys :: "'a list \<Rightarrow> string list" where
  "array_keys xs = map decimal [0..<length xs]"

subsection \<open>PgExplorer: the static path functions\<close>

definition getItemTypeFromPath :: "string \<Rightarrow> ItemType" where
  "getItemTypeFromPath p = (if endsWithSlash p then IsFolder else IsFile)"

definition getItemNameFromPath :: "string \<Rightarrow> string option" where
  "getItemNameFromPath p =
     (let itemsArr = split p ''/'' in
      case getItemTypeFromPath p of
        IsFolder \<Rightarrow> index itemsArr (int (length itemsArr) - 2)
      | IsFile \<Rightarrow> index itemsArr (int (length itemsArr) - 1))"

text \<open>The loop body of \<open>getParentPathFromPath\<close>: skip an empty segment, append
  the others with a slash.\<close>

definition addSegment :: "string \<Rightarrow> string \<Rightarrow> string" where
  "addSegment parentPath item = (if item = [] then parentPath else parentPath @ item @ ''/'')"

definition getParentPathFromPath :: "string \<Rightarrow> string" where
  "getParentPathFromPath p =
     (let itemsArr = split p ''/'' in
      case getItemTypeFromPath p of
        IsFolder \<Rightarrow> foldl addSegment ''/'' (take (length itemsArr - 2) itemsArr)
      | IsFile \<Rightarrow> foldl addSegment ''/'' (take (length itemsArr - 1) itemsArr))"

text \<open>The character class \<open>[\w.-]\<close> of the regular expression.\<close>

definition nameChar :: "char \<Rightarrow> bool" where
  "nameChar c =
     (c \<in> set ''abcdefghijklmnopqrstuvwxyzABCDEFGHIJKLMNOPQRSTUVWXYZ0123456789_.-'')"

text \<open>\<open>name.match(/^(?!\.)[\w.-]+$/) && !name.includes("//") && !name.includes("..")\<close>\<close>

definition isItemNameValid :: "string \<Rightarrow> bool" where
  "isItemNameValid name =
     ((name \<noteq> [] \<and> hd name \<noteq> CHR ''.'' \<and> list_all nameChar name)
      \<and> \<not> includesStr name ''//''
      \<and> \<not> includesStr name ''..'')"

subsection \<open>Explorer: reading the object\<close>

text \<open>
  A method is a function from the map to an outcome and the map it leaves. The queries
  are written with the steps they are made of: return a value, throw, read
  \<open>files[k]\<close>, take the keys a \<open>for ... in\<close> loop will run over, and do one step
  after another (a throw ends the method).
\<close>

definition returns :: "'a \<Rightarrow> Files \<Rightarrow> 'a outcome \<times> Files" where
  "returns x fs = (Returned x, fs)"

definition throws :: "Files \<Rightarrow> 'a outcome \<times> Files" where
  "throws fs = (TypeError, fs)"

definition andThen ::
  "(Files \<Rightarrow> 'a outcome \<times> Files) \<Rightarrow> ('a \<Rightarrow> Files \<Rightarrow> 'b outcome \<times> Files)
   \<Rightarrow> Files \<Rightarrow> 'b outcome \<times> Files" where
  "andThen m f fs =
     (case m fs of
        (Returned x, fs') \<Rightarrow> f x fs'
      | (TypeError, fs') \<Rightarrow> (TypeError, fs'))"

definition readEntry :: "string \<Rightarrow> Files \<Rightarrow> entry outcome \<times> Files" where
  "readEntry k fs = (Returned (lookup fs k), fs)"

definition keysOf :: "Files \<Rightarrow> string list outcome \<times> Files" where
  "keysOf fs = (Returned (map fst fs), fs)"

subsection \<open>Explorer: queries\<close>

text \<open>\<open>getFileContentFromPath\<close>: \<open>fileInfo?.content\<close>.\<close>

definition getFileContentFromPath :: "string \<Rightarrow> Files \<Rightarrow> string option outcome \<times> Files" where
  "getFileContentFromPath p =
     andThen (readEntry p)
       (\<lambda>fileInfo. returns (case fileInfo of Undefined \<Rightarrow> None | Item i \<Rightarrow> content i))"

text \<open>\<open>getCurrentFile\<close>: the loop reads \<open>files[path]\<close> for each key and returns at
  the first entry whose \<open>current\<close> is truthy.\<close>

primrec getCurrentFileLoop :: "string list \<Rightarrow> Files \<Rightarrow> FullFile option outcome \<times> Files" where
  "getCurrentFileLoop [] = returns None"
| "getCurrentFileLoop (p # rest) =
     andThen (readEntry p)
       (\<lambda>fileInfo. case fileInfo of
          Undefined \<Rightarrow> throws
        | Item i \<Rightarrow>
            if current i = Some True
            then returns (Some \<lparr>content = content i, current = None, tabs = None, path = p\<rparr>)
            else getCurrentFileLoop rest)"

definition getCurrentFile :: "Files \<Rightarrow> FullFile option outcome \<times> Files" where
  "getCurrentFile = andThen keysOf getCurrentFileLoop"

text \<open>\<open>getTabs\<close>: the loop pushes every entry whose \<open>tabs\<close> is truthy.\<close>

primrec getTabsLoop :: "string list \<Rightarrow> FullFile list \<Rightarrow> Files \<Rightarrow> FullFile list outcome \<times> Files" where
  "getTabsLoop [] ts = returns ts"
| "getTabsLoop (p # rest) ts =
     andThen (readEntry p)
       (\<lambda>fileInfo. case fileInfo of
          Undefined \<Rightarrow> throws
        | Item i \<Rightarrow>
            if tabs i = Some True
            then getTabsLoop rest
                   (ts @ [\<lparr>content = content i, current = current i, tabs = None, path = p\<rparr>])
            else getTabsLoop rest ts)"

definition getTabs :: "Files \<Rightarrow> FullFile list outcome \<times> Files" where
  "getTabs = andThen keysOf (\<lambda>ks. getTabsLoop ks [])"

text \<open>\<open>getBuildFiles\<close>: the loop pushes the pair of a path and its content when the
  content is truthy, that is a non-empty string.\<close>

primrec getBuildFilesLoop ::
  "string list \<Rightarrow> (string \<times> string) list \<Rightarrow> Files \<Rightarrow> (string \<times> string) list outcome \<times> Files" where
  "getBuildFilesLoop [] bs = returns bs"
| "getBuildFilesLoop (p # rest) bs =
     andThen (readEntry p)
       (\<lambda>fileInfo. case fileInfo of
          Undefined \<Rightarrow> throws
        | Item i \<Rightarrow>
            (case content i of
               None \<Rightarrow> getBuildFilesLoop rest bs
             | Some c \<Rightarrow>
                 if c = [] then getBuildFilesLoop rest bs
                 else getBuildFilesLoop rest (bs @ [(p, c)])))"

definition getBuildFiles :: "Files \<Rightarrow> (string \<times> string) list outcome \<times> Files" where
  "getBuildFiles = andThen keysOf (\<lambda>ks. getBuildFilesLoop ks [])"

text \<open>
  \<open>getFolderContent\<close>: the loop looks at the keys only. \<open>itemPath.split(path)[1]\<close>
  is undefined when the split has one piece, and its \<open>.split("/")\<close> then throws.
\<close>

fun folderContentOf :: "string \<Rightarrow> string list \<Rightarrow> Folder \<Rightarrow> Folder outcome" where
  "folderContentOf p [] acc = Returned acc"
| "folderContentOf p (itemPath # rest) acc =
     (if includesStr itemPath p
      then (case index (split itemPath p) 1 of
              None \<Rightarrow> TypeError
            | Some tail \<Rightarrow>
                (case index (split tail ''/'') 0 of
                   None \<Rightarrow> TypeError
                 | Some item \<Rightarrow>
                     if item \<notin> set (files acc) \<and> item \<notin> set (folders acc) \<and> item \<noteq> []
                     then (if includesStr item ''.''
                           then folderContentOf p rest (acc\<lparr>files := files acc @ [item]\<rparr>)
                           else folderContentOf p rest (acc\<lparr>folders := folders acc @ [item]\<rparr>))
                     else folderContentOf p rest acc))
      else folderContentOf p rest acc)"

definition getFolderContent :: "string \<Rightarrow> Files \<Rightarrow> Folder outcome \<times> Files" where
  "getFolderContent p =
     andThen keysOf
       (\<lambda>ks. case folderContentOf p ks \<lparr>folders = [], files = []\<rparr> of
          Returned r \<Rightarrow> returns r
        | TypeError \<Rightarrow> throws)"

subsection \<open>Explorer: the queries as the mutations call them\<close>

text \<open>
  \<open>changeCurrentFile\<close> and \<open>changeCurrentFileToTheLastTab\<close> call
  \<open>this.getCurrentFile()\<close> and \<open>this.getTabs()\<close>. On an object, where each key
  stands once, the two loops give these results (lemmas \<open>getCurrentFile_currentOf\<close>
  and \<open>getTabs_tabsOf\<close> below): the first entry that is current, and the entries
  that are tabs, in order.
\<close>

fun currentOf :: "Files \<Rightarrow> FullFile option outcome" where
  "currentOf [] = Returned None"
| "currentOf ((p, Undefined) # rest) = TypeError"
| "currentOf ((p, Item i) # rest) =
     (if current i = Some True
      then Returned (Some \<lparr>content = content i, current = None, tabs = None, path = p\<rparr>)
      else currentOf rest)"

fun tabsOf :: "Files \<Rightarrow> FullFile list outcome" where
  "tabsOf [] = Returned []"
| "tabsOf ((p, Undefined) # rest) = TypeError"
| "tabsOf ((p, Item i) # rest) =
     (case tabsOf rest of
        TypeError \<Rightarrow> TypeError
      | Returned ts \<Rightarrow>
          Returned (if tabs i = Some True
                    then \<lparr>content = content i, current = current i, tabs = None, path = p\<rparr> # ts
                    else ts))"

subsection \<open>Explorer: tabs and the current file\<close>

definition changeCurrentFile :: "string \<Rightarrow> Files \<Rightarrow> unit outcome \<times> Files" where
  "changeCurrentFile newPath fs =
     (case currentOf fs of
        TypeError \<Rightarrow> (TypeError, fs)
      | Returned curFile \<Rightarrow>
          (case (case curFile of
                   None \<Rightarrow> Some fs
                 | Some f \<Rightarrow> assign (path f) (\<lambda>i. i\<lparr>current := Some False\<rparr>) fs) of
             None \<Rightarrow> (TypeError, fs)
           | Some fs1 \<Rightarrow>
               (case assign newPath (\<lambda>i. i\<lparr>current := Some True\<rparr>) fs1 of
                  None \<Rightarrow> (TypeError, fs1)
                | Some fs2 \<Rightarrow>
                    (case tabsOf fs2 of
                       TypeError \<Rightarrow> (TypeError, fs2)
                     | Returned ts \<Rightarrow>
                         if newPath \<in> set (array_keys ts) then (Returned (), fs2)
                         else (case assign newPath (\<lambda>i. i\<lparr>tabs := Some True\<rparr>) fs2 of
                                 None \<Rightarrow> (TypeError, fs2)
                               | Some fs3 \<Rightarrow> (Returned (), fs3))))))"

definition changeCurrentFileToTheLastTab :: "Files \<Rightarrow> unit outcome \<times> Files" where
  "changeCurrentFileToTheLastTab fs =
     (case tabsOf fs of
        TypeError \<Rightarrow> (TypeError, fs)
      | Returned ts \<Rightarrow>
          if length ts = 0 then (Returned (), fs)
          else changeCurrentFile (path (last ts)) fs)"

definition removeFromTabs :: "string \<Rightarrow> Files \<Rightarrow> unit outcome \<times> Files" where
  "removeFromTabs p fs =
     (case assign p (\<lambda>i. i\<lparr>tabs := Some False\<rparr>) fs of
        None \<Rightarrow> (TypeError, fs)
      | Some fs1 \<Rightarrow> changeCurrentFileToTheLastTab fs1)"

subsection \<open>Explorer: mutations\<close>

definition saveFile :: "string \<Rightarrow> string \<Rightarrow> Files \<Rightarrow> unit outcome \<times> Files" where
  "saveFile p c fs =
     (case lookup fs p of
        Undefined \<Rightarrow> (Returned (), fs)
      | Item i \<Rightarrow> (Returned (), AList.update p (Item (i\<lparr>content := Some c\<rparr>)) fs))"

text \<open>The result \<open>{ err: e }\<close> is \<open>Some e\<close>; falling off the end of the method
  (\<open>undefined\<close>) is \<open>None\<close>.\<close>

definition newItem :: "string \<Rightarrow> Files \<Rightarrow> ItemError option outcome \<times> Files" where
  "newItem fullPath fs =
     (case getItemNameFromPath fullPath of
        None \<Rightarrow> (TypeError, fs)
      | Some name \<Rightarrow>
          if \<not> isItemNameValid name then (Returned (Some InvalidName), fs)
          else if lookup fs fullPath \<noteq> Undefined then (Returned (Some AlreadyExists), fs)
          else (case getItemTypeFromPath fullPath of
                  IsFolder \<Rightarrow> (Returned None, AList.update fullPath (Item emptyItem) fs)
                | IsFile \<Rightarrow>
                    (case changeCurrentFile fullPath
                            (AList.update fullPath
                               (Item \<lparr>content = Some [], current = Some True, tabs = Some True\<rparr>) fs) of
                       (TypeError, fs') \<Rightarrow> (TypeError, fs')
                     | (Returned u, fs') \<Rightarrow> (Returned None, fs'))))"

definition deleteItem :: "string \<Rightarrow> Files \<Rightarrow> unit outcome \<times> Files" where
  "deleteItem fullPath fs =
     (let isCurrentFile = (case lookup fs fullPath of
                             Undefined \<Rightarrow> False
                           | Item i \<Rightarrow> current i = Some True);
          fs1 = filter (\<lambda>(p, e). \<not> prefix fullPath p) fs;
          parentPath = getParentPathFromPath fullPath;
          fs2 = AList.update parentPath (Item emptyItem) fs1;
          fs3 = (if length fs2 = 1
                 then AList.update (parentPath @ ''src/'') (Item emptyItem) fs2
                 else fs2)
      in if isCurrentFile then changeCurrentFileToTheLastTab fs3 else (Returned (), fs3))"

text \<open>The inner loop of the folder branch of \<open>renameItem\<close>: rebuild the path from
  its segments, each followed by a slash.\<close>

definition replaceSegment :: "string option \<Rightarrow> string \<Rightarrow> string \<Rightarrow> string \<Rightarrow> string" where
  "replaceSegment oldName newName newPath item =
     (if Some item = oldName then newPath @ newName @ ''/'' else newPath @ item @ ''/'')"

definition renamedPath :: "string \<Rightarrow> string \<Rightarrow> string \<Rightarrow> string" where
  "renamedPath fullPath newName p =
     foldl (replaceSegment (getItemNameFromPath fullPath) newName) [] (split p ''/'')"

text \<open>
  The outer loop of the folder branch, over the keys the object had when the loop
  began. A key that was deleted before its turn is skipped, a key added during the loop
  is not visited; the loop returns from the method at the first collision.
\<close>

fun renameFolder :: "string \<Rightarrow> string \<Rightarrow> string list \<Rightarrow> Files \<Rightarrow> ItemError option outcome \<times> Files" where
  "renameFolder fullPath newName [] fs = (Returned None, fs)"
| "renameFolder fullPath newName (p # ps) fs =
     (if p \<notin> fst ` set fs then renameFolder fullPath newName ps fs
      else let newPath = renamedPath fullPath newName p in
           if lookup fs newPath \<noteq> Undefined then (Returned (Some AlreadyExists), fs)
           else renameFolder fullPath newName ps
                  (AList.update newPath (lookup fs p) (AList.delete p fs)))"

definition renameItem :: "string \<Rightarrow> string \<Rightarrow> Files \<Rightarrow> ItemError option outcome \<times> Files" where
  "renameItem fullPath newName fs =
     (if \<not> isItemNameValid newName then (Returned (Some InvalidName), fs)
      else (case getItemTypeFromPath fullPath of
              IsFile \<Rightarrow>
                (let parentFolder = getParentPathFromPath fullPath;
                     newPath = parentFolder @ newName
                 in if lookup fs newPath \<noteq> Undefined then (Returned (Some AlreadyExists), fs)
                    else (Returned None,
                          AList.update newPath (lookup fs fullPath) (AList.delete fullPath fs)))
            | IsFolder \<Rightarrow> renameFolder fullPath newName (map fst fs) fs))"

subsection \<open>Sequences of calls\<close>

datatype call =
    NewItem string
  | DeleteItem string
  | RenameItem string string
  | SaveFile string string
  | ChangeCurrentFile string
  | RemoveFromTabs string

text \<open>The map as one call leaves it, whether the call returned or threw.\<close>

fun after :: "call \<Rightarrow> Files \<Rightarrow> Files" where
  "after (NewItem p) fs = snd (newItem p fs)"
| "after (DeleteItem p) fs = snd (deleteItem p fs)"
| "after (RenameItem p n) fs = snd (renameItem p n fs)"
| "after (SaveFile p c) fs = snd (saveFile p c fs)"
| "after (ChangeCurrentFile p) fs = snd (changeCurrentFile p fs)"
| "after (RemoveFromTabs p) fs = snd (removeFromTabs p fs)"

subsection \<open>State predicates\<close>

definition isCurrent :: "entry \<Rightarrow> bool" where
  "isCurrent e = (case e of Undefined \<Rightarrow> False | Item i \<Rightarrow> current i = Some True)"

definition isTab :: "entry \<Rightarrow> bool" where
  "isTab e = (case e of Undefined \<Rightarrow> False | Item i \<Rightarrow> tabs i = Some True)"

definition currentCount :: "Files \<Rightarrow> nat" where
  "currentCount fs = length (filter (\<lambda>(p, e). isCurrent e) fs)"

definition atMostOneCurrent :: "Files \<Rightarrow> bool" where
  "atMostOneCurrent fs = (currentCount fs \<le> 1)"

text \<open>Every entry that is current is open in the tabs.\<close>

definition currentInTabs :: "Files \<Rightarrow> bool" where
  "currentInTabs fs = list_all (\<lambda>(p, e). isCurrent e \<longrightarrow> isTab e) fs"

text \<open>
  The maps the constructor can load: an object has each key once, and each value is an
  \<open>ItemInfo\<close> object, as the interface \<open>ExplorerJSON\<close> declares.
\<close>

definition noUndefined :: "Files \<Rightarrow> bool" where
  "noUndefined fs = list_all (\<lambda>(p, e). e \<noteq> Undefined) fs"

definition wellFormed :: "Files \<Rightarrow> bool" where
  "wellFormed fs = (distinct (map fst fs) \<and> noUndefined fs)"

text \<open>Some entry other than the one at \<open>p\<close> is open in the tabs.\<close>

definition otherTab :: "string \<Rightarrow> Files \<Rightarrow> bool" where
  "otherTab p fs = list_ex (\<lambda>(q, e). q \<noteq> p \<and> isTab e) fs"

text \<open>A path is an absolute string: it starts with a slash.\<close>

definition absolutePath :: "string \<Rightarrow> bool" where
  "absolutePath p = prefix ''/'' p"

text \<open>
  The calls the user interface makes: every path it passes is absolute, and a file is
  renamed where it is, so its path is a key.
\<close>

fun admissible :: "call \<Rightarrow> Files \<Rightarrow> bool" where
  "admissible (NewItem p) fs = absolutePath p"
| "admissible (DeleteItem p) fs = absolutePath p"
| "admissible (RenameItem p n) fs =
     (absolutePath p \<and> (getItemTypeFromPath p = IsFile \<longrightarrow> p \<in> fst ` set fs))"
| "admissible (SaveFile p c) fs = absolutePath p"
| "admissible (ChangeCurrentFile p) fs = absolutePath p"
| "admissible (RemoveFromTabs p) fs = absolutePath p"

text \<open>
  The calls that keep the current file among the tabs: as above, and the tab of the
  current file is closed only while another tab is open.
\<close>

fun tabAdmissible :: "call \<Rightarrow> Files \<Rightarrow> bool" where
  "tabAdmissible (RemoveFromTabs p) fs =
     (absolutePath p \<and> (isCurrent (lookup fs p) \<longrightarrow> otherTab p fs))"
| "tabAdmissible c fs = admissible c fs"

text \<open>A sequence of calls, each made on the map the one before left, and the
  sequences whose calls are all admissible where they are made.\<close>

fun run :: "call list \<Rightarrow> Files \<Rightarrow> Files" where
  "run [] fs = fs"
| "run (c # cs) fs = run cs (after c fs)"

fun admissibleRun :: "call list \<Rightarrow> Files \<Rightarrow> bool" where
  "admissibleRun [] fs = True"
| "admissibleRun (c # cs) fs = (admissible c fs \<and> admissibleRun cs (after c fs))"

fun tabAdmissibleRun :: "call list \<Rightarrow> Files \<Rightarrow> bool" where
  "tabAdmissibleRun [] fs = True"
| "tabAdmissibleRun (c # cs) fs = (tabAdmissible c fs \<and> tabAdmissibleRun cs (after c fs))"

section \<open>Properties\<close>

declare decimal.simps [simp del]

subsection \<open>The map under lookup, assignment and deletion\<close>

lemma lookup_update: "lookup (AList.update k v fs) k' = (if k' = k then v else lookup fs k')"
  by (simp add: lookup_def update_conv')

lemma lookup_delete: "lookup (AList.delete k fs) k' = (if k' = k then Undefined else lookup fs k')"
  by (simp add: lookup_def delete_conv')

lemma lookup_absent: "k \<notin> fst ` set fs \<Longrightarrow> lookup fs k = Undefined"
  using map_of_eq_None_iff [of fs k] by (simp add: lookup_def)

lemma lookup_present: "lookup fs k \<noteq> Undefined \<Longrightarrow> k \<in> fst ` set fs"
  using lookup_absent by blast

lemma keys_assign: "assign k f fs = Some fs' \<Longrightarrow> map fst fs' = map fst fs"
proof -
  assume a: "assign k f fs = Some fs'"
  then obtain i where i: "lookup fs k = Item i" and fs': "fs' = AList.update k (Item (f i)) fs"
    by (auto simp: assign_def split: entry.splits)
  from i have "k \<in> fst ` set fs" by (simp add: lookup_present)
  then show ?thesis by (simp add: fs' update_keys)
qed

lemma keys_changeCurrentFile: "map fst (snd (changeCurrentFile p fs)) = map fst fs"
  by (auto simp: changeCurrentFile_def split: outcome.splits option.splits dest!: keys_assign)

lemma keys_changeCurrentFileToTheLastTab:
  "map fst (snd (changeCurrentFileToTheLastTab fs)) = map fst fs"
  by (simp add: changeCurrentFileToTheLastTab_def keys_changeCurrentFile split: outcome.splits)

lemma lookup_Nil: "lookup [] k = Undefined"
  by (simp add: lookup_def)

lemma lookup_Cons: "lookup ((k, e) # fs) k' = (if k' = k then e else lookup fs k')"
  by (simp add: lookup_def)

lemma lookup_key_not_Undefined:
  "noUndefined fs \<Longrightarrow> k \<in> fst ` set fs \<Longrightarrow> lookup fs k \<noteq> Undefined"
proof (induction fs)
  case Nil
  then show ?case by simp
next
  case (Cons x fs)
  obtain q e where x: "x = (q, e)" by (cases x)
  show ?case
  proof (cases "k = q")
    case True
    with Cons.prems show ?thesis by (simp add: x noUndefined_def lookup_Cons)
  next
    case False
    with Cons.prems have "noUndefined fs" "k \<in> fst ` set fs"
      by (simp_all add: x noUndefined_def)
    then have "lookup fs k \<noteq> Undefined" by (rule Cons.IH)
    with False show ?thesis by (simp add: x lookup_Cons)
  qed
qed

lemma lookup_Undefined_absent:
  "noUndefined fs \<Longrightarrow> lookup fs k = Undefined \<Longrightarrow> k \<notin> fst ` set fs"
  using lookup_key_not_Undefined by blast

lemma update_absent: "k \<notin> fst ` set fs \<Longrightarrow> AList.update k v fs = fs @ [(k, v)]"
  by (induction fs) auto

lemma update_same: "distinct (map fst fs) \<Longrightarrow> k \<in> fst ` set fs \<Longrightarrow> lookup fs k = v \<Longrightarrow> AList.update k v fs = fs"
proof (induction fs)
  case Nil
  then show ?case by simp
next
  case (Cons x fs)
  obtain q e where x: "x = (q, e)" by (cases x)
  show ?case
  proof (cases "k = q")
    case True
    with Cons.prems show ?thesis by (simp add: x lookup_Cons)
  next
    case False
    with Cons.prems have "distinct (map fst fs)" "k \<in> fst ` set fs" "lookup fs k = v"
      by (simp_all add: x lookup_Cons)
    then have "AList.update k v fs = fs" by (rule Cons.IH)
    with False show ?thesis by (simp add: x)
  qed
qed

lemma files_eqI:
  "map fst xs = map fst ys \<Longrightarrow> distinct (map fst xs) \<Longrightarrow> (\<And>k. lookup xs k = lookup ys k) \<Longrightarrow> xs = ys"
proof (induction xs arbitrary: ys)
  case Nil
  then show ?case by simp
next
  case (Cons x xs)
  obtain k e where x: "x = (k, e)" by (cases x)
  from Cons.prems(1) obtain y ys' where ys: "ys = y # ys'" by (cases ys) auto
  obtain k' e' where y: "y = (k', e')" by (cases y)
  from Cons.prems(1) have kk: "k' = k" and keys: "map fst xs = map fst ys'"
    by (simp_all add: x ys y)
  have "lookup (x # xs) k = lookup ys k" by (rule Cons.prems(3))
  then have ee: "e' = e" by (simp add: x ys y kk lookup_Cons)
  have d: "distinct (map fst xs)" and nk: "k \<notin> fst ` set xs"
    using Cons.prems(2) by (simp_all add: x)
  have nk': "k \<notin> fst ` set ys'"
    using nk keys by (metis set_map)
  have "xs = ys'"
  proof (rule Cons.IH [OF keys d])
    fix q
    show "lookup xs q = lookup ys' q"
    proof (cases "q = k")
      case True
      then show ?thesis using nk nk' by (simp add: lookup_absent)
    next
      case False
      have "lookup (x # xs) q = lookup ys q" by (rule Cons.prems(3))
      with False show ?thesis by (simp add: x ys y kk lookup_Cons)
    qed
  qed
  then show ?case by (simp add: x ys y kk ee)
qed

lemma noUndefined_update:
  "noUndefined fs \<Longrightarrow> v \<noteq> Undefined \<Longrightarrow> noUndefined (AList.update k v fs)"
  by (induction fs) (auto simp: noUndefined_def)

lemma noUndefined_delete: "noUndefined fs \<Longrightarrow> noUndefined (AList.delete k fs)"
  by (induction fs) (auto simp: noUndefined_def)

lemma noUndefined_filter: "noUndefined fs \<Longrightarrow> noUndefined (filter P fs)"
  by (induction fs) (auto simp: noUndefined_def)

lemma assign_Some:
  "lookup fs k = Item i \<Longrightarrow> assign k f fs = Some (AList.update k (Item (f i)) fs)"
  by (simp add: assign_def)

lemma assign_None: "lookup fs k = Undefined \<Longrightarrow> assign k f fs = None"
  by (simp add: assign_def)

subsection \<open>The current file and the tabs, by lookup\<close>

lemma currentOf_None: "currentOf fs = Returned None \<Longrightarrow> \<not> isCurrent (lookup fs k)"
  by (induction fs rule: currentOf.induct)
     (auto simp: lookup_Cons lookup_Nil isCurrent_def split: if_splits)

lemma currentOf_Some:
  "distinct (map fst fs) \<Longrightarrow> currentOf fs = Returned (Some f) \<Longrightarrow>
   path f \<in> fst ` set fs \<and> isCurrent (lookup fs (path f))"
proof (induction fs rule: currentOf.induct)
  case 1
  then show ?case by simp
next
  case (2 p rest)
  then show ?case by simp
next
  case (3 p i rest)
  show ?case
  proof (cases "current i = Some True")
    case True
    with 3 show ?thesis by (auto simp: lookup_Cons isCurrent_def)
  next
    case False
    with 3 have r: "path f \<in> fst ` set rest \<and> isCurrent (lookup rest (path f))" by simp
    then have "path f \<noteq> p" using "3.prems"(1) by auto
    with r show ?thesis by (simp add: lookup_Cons)
  qed
qed

lemma currentOf_Returned: "noUndefined fs \<Longrightarrow> \<exists>cur. currentOf fs = Returned cur"
  by (induction fs rule: currentOf.induct) (auto simp: noUndefined_def)

lemma currentOf_append_Some:
  "currentOf fs = Returned (Some f) \<Longrightarrow> currentOf (fs @ gs) = Returned (Some f)"
  by (induction fs rule: currentOf.induct) (auto split: if_splits)

lemma currentOf_append_None:
  "currentOf fs = Returned None \<Longrightarrow> currentOf (fs @ gs) = currentOf gs"
  by (induction fs rule: currentOf.induct) (auto split: if_splits)

lemma tabsOf_Returned: "noUndefined fs \<Longrightarrow> \<exists>ts. tabsOf fs = Returned ts"
  by (induction fs rule: tabsOf.induct) (auto simp: noUndefined_def)

lemma tabsOf_noUndefined: "tabsOf fs = Returned ts \<Longrightarrow> noUndefined fs"
  by (induction fs arbitrary: ts rule: tabsOf.induct)
     (auto simp: noUndefined_def split: outcome.splits)

lemma tabsOf_paths:
  "tabsOf fs = Returned ts \<Longrightarrow> map path ts = map fst (filter (\<lambda>(k, e). isTab e) fs)"
  by (induction fs arbitrary: ts rule: tabsOf.induct)
     (auto simp: isTab_def split: outcome.splits)

lemma filter_by_lookup:
  "distinct (map fst fs) \<Longrightarrow>
   map fst (filter (\<lambda>(k, e). P e) fs) = filter (\<lambda>k. P (lookup fs k)) (map fst fs)"
proof (induction fs)
  case Nil
  then show ?case by simp
next
  case (Cons x fs)
  obtain k e where x: "x = (k, e)" by (cases x)
  from Cons.prems have nk: "k \<notin> fst ` set fs" and d: "distinct (map fst fs)"
    by (simp_all add: x)
  have "filter (\<lambda>q. P (lookup ((k, e) # fs) q)) (map fst fs)
        = filter (\<lambda>q. P (lookup fs q)) (map fst fs)"
    using nk by (intro filter_cong) (auto simp: lookup_Cons)
  then show ?case using Cons.IH [OF d] by (simp add: x lookup_Cons)
qed

lemma last_tab:
  assumes "distinct (map fst fs)" "tabsOf fs = Returned ts" "ts \<noteq> []"
  shows "path (last ts) \<in> fst ` set fs \<and> isTab (lookup fs (path (last ts)))"
proof -
  have "map path ts = filter (\<lambda>k. isTab (lookup fs k)) (map fst fs)"
    using assms(1,2) by (simp add: tabsOf_paths filter_by_lookup)
  moreover have "path (last ts) \<in> set (map path ts)"
    using assms(3) by simp
  ultimately have "path (last ts) \<in> set (filter (\<lambda>k. isTab (lookup fs k)) (map fst fs))"
    by simp
  then show ?thesis by auto
qed


lemma decimal_head: "decimal n \<noteq> [] \<and> hd (decimal n) \<in> set ''0123456789''"
proof (induction n rule: decimal.induct)
  case (1 n)
  show ?case
  proof (cases "n < 10")
    case True
    then have "''0123456789'' ! n \<in> set ''0123456789''" by (intro nth_mem) simp
    with True show ?thesis by (subst (1 2) decimal.simps) simp
  next
    case False
    with 1 have "decimal (n div 10) \<noteq> [] \<and> hd (decimal (n div 10)) \<in> set ''0123456789''"
      by simp
    with False show ?thesis by (subst (1 2) decimal.simps) simp
  qed
qed

lemma absolute_not_array_key: "prefix ''/'' p \<Longrightarrow> p \<notin> set (array_keys ts)"
proof
  assume a: "prefix ''/'' p" and "p \<in> set (array_keys ts)"
  then obtain n where "p = decimal n" by (auto simp: array_keys_def)
  then have "hd p \<in> set ''0123456789''" using decimal_head by simp
  moreover from a have "hd p = CHR ''/''" by (auto simp: prefix_def)
  ultimately show False by simp
qed

lemma isCurrent_Undefined: "\<not> isCurrent Undefined"
  by (simp add: isCurrent_def)

lemma isTab_Undefined: "\<not> isTab Undefined"
  by (simp add: isTab_def)

lemma isCurrent_Item: "isCurrent (Item i) = (current i = Some True)"
  by (simp add: isCurrent_def)

lemma isTab_Item: "isTab (Item i) = (tabs i = Some True)"
  by (simp add: isTab_def)

lemma currentCount_Cons:
  "currentCount ((k, e) # fs) = (if isCurrent e then 1 else 0) + currentCount fs"
  by (simp add: currentCount_def)

lemma currentCount_zero:
  "distinct (map fst fs) \<Longrightarrow> (currentCount fs = 0) = (\<forall>k. \<not> isCurrent (lookup fs k))"
proof (induction fs)
  case Nil
  then show ?case by (simp add: currentCount_def lookup_Nil isCurrent_Undefined)
next
  case (Cons x fs)
  obtain q e where x: "x = (q, e)" by (cases x)
  from Cons.prems have d: "distinct (map fst fs)" and nq: "q \<notin> fst ` set fs"
    by (simp_all add: x)
  have IH: "(currentCount fs = 0) = (\<forall>k. \<not> isCurrent (lookup fs k))" by (rule Cons.IH [OF d])
  have q: "\<not> isCurrent (lookup fs q)" using nq by (simp add: lookup_absent isCurrent_Undefined)
  show ?case
  proof
    assume "currentCount (x # fs) = 0"
    then have "\<not> isCurrent e" "\<forall>k. \<not> isCurrent (lookup fs k)"
      using IH by (simp_all add: x currentCount_Cons split: if_splits)
    then show "\<forall>k. \<not> isCurrent (lookup (x # fs) k)" by (simp add: x lookup_Cons)
  next
    assume a: "\<forall>k. \<not> isCurrent (lookup (x # fs) k)"
    then have "\<not> isCurrent (lookup (x # fs) q)" by blast
    then have e: "\<not> isCurrent e" by (simp add: x lookup_Cons)
    have "\<forall>k. \<not> isCurrent (lookup fs k)"
    proof
      fix k
      show "\<not> isCurrent (lookup fs k)"
      proof (cases "k = q")
        case True
        then show ?thesis using q by simp
      next
        case False
        from a have "\<not> isCurrent (lookup (x # fs) k)" by blast
        with False show ?thesis by (simp add: x lookup_Cons)
      qed
    qed
    with IH e show "currentCount (x # fs) = 0" by (simp add: x currentCount_Cons)
  qed
qed

lemma atMostOneCurrent_iff:
  "distinct (map fst fs) \<Longrightarrow>
   atMostOneCurrent fs = (\<forall>k k'. isCurrent (lookup fs k) \<and> isCurrent (lookup fs k') \<longrightarrow> k = k')"
proof (induction fs)
  case Nil
  then show ?case
    by (simp add: atMostOneCurrent_def currentCount_def lookup_Nil isCurrent_Undefined)
next
  case (Cons x fs)
  obtain q e where x: "x = (q, e)" by (cases x)
  from Cons.prems have d: "distinct (map fst fs)" and nq: "q \<notin> fst ` set fs"
    by (simp_all add: x)
  have IH: "atMostOneCurrent fs = (\<forall>k k'. isCurrent (lookup fs k) \<and> isCurrent (lookup fs k') \<longrightarrow> k = k')"
    by (rule Cons.IH [OF d])
  have q: "\<not> isCurrent (lookup fs q)" using nq by (simp add: lookup_absent isCurrent_Undefined)
  have zero: "(currentCount fs = 0) = (\<forall>k. \<not> isCurrent (lookup fs k))"
    by (rule currentCount_zero [OF d])
  show ?case
  proof (cases "isCurrent e")
    case True
    have "atMostOneCurrent (x # fs) = (currentCount fs = 0)"
      using True by (simp add: x atMostOneCurrent_def currentCount_Cons)
    also have "\<dots> = (\<forall>k. \<not> isCurrent (lookup fs k))" by (rule zero)
    also have "\<dots> = (\<forall>k k'. isCurrent (lookup (x # fs) k) \<and> isCurrent (lookup (x # fs) k') \<longrightarrow> k = k')"
    proof
      assume a: "\<forall>k. \<not> isCurrent (lookup fs k)"
      then show "\<forall>k k'. isCurrent (lookup (x # fs) k) \<and> isCurrent (lookup (x # fs) k') \<longrightarrow> k = k'"
        by (auto simp: x lookup_Cons split: if_splits)
    next
      assume a: "\<forall>k k'. isCurrent (lookup (x # fs) k) \<and> isCurrent (lookup (x # fs) k') \<longrightarrow> k = k'"
      show "\<forall>k. \<not> isCurrent (lookup fs k)"
      proof
        fix k
        show "\<not> isCurrent (lookup fs k)"
        proof
          assume c: "isCurrent (lookup fs k)"
          then have kq: "k \<noteq> q" using q by auto
          then have "isCurrent (lookup (x # fs) k)" using c by (simp add: x lookup_Cons)
          moreover have "isCurrent (lookup (x # fs) q)" using True by (simp add: x lookup_Cons)
          ultimately have "k = q" using a by blast
          with kq show False by simp
        qed
      qed
    qed
    finally show ?thesis .
  next
    case False
    have "atMostOneCurrent (x # fs) = atMostOneCurrent fs"
      using False by (simp add: x atMostOneCurrent_def currentCount_Cons)
    also have "\<dots> = (\<forall>k k'. isCurrent (lookup fs k) \<and> isCurrent (lookup fs k') \<longrightarrow> k = k')"
      by (rule IH)
    also have "\<dots> = (\<forall>k k'. isCurrent (lookup (x # fs) k) \<and> isCurrent (lookup (x # fs) k') \<longrightarrow> k = k')"
    proof -
      have "\<And>k. isCurrent (lookup (x # fs) k) = isCurrent (lookup fs k)"
        using False q by (simp add: x lookup_Cons)
      then show ?thesis by simp
    qed
    finally show ?thesis .
  qed
qed

lemma currentInTabs_iff:
  "distinct (map fst fs) \<Longrightarrow>
   currentInTabs fs = (\<forall>k. isCurrent (lookup fs k) \<longrightarrow> isTab (lookup fs k))"
proof (induction fs)
  case Nil
  then show ?case by (simp add: currentInTabs_def lookup_Nil isCurrent_Undefined)
next
  case (Cons x fs)
  obtain q e where x: "x = (q, e)" by (cases x)
  from Cons.prems have d: "distinct (map fst fs)" and nq: "q \<notin> fst ` set fs"
    by (simp_all add: x)
  have IH: "currentInTabs fs = (\<forall>k. isCurrent (lookup fs k) \<longrightarrow> isTab (lookup fs k))"
    by (rule Cons.IH [OF d])
  have q: "\<not> isCurrent (lookup fs q)" using nq by (simp add: lookup_absent isCurrent_Undefined)
  have "currentInTabs (x # fs) = ((isCurrent e \<longrightarrow> isTab e) \<and> currentInTabs fs)"
    by (simp add: x currentInTabs_def)
  also have "\<dots> = ((isCurrent e \<longrightarrow> isTab e) \<and> (\<forall>k. isCurrent (lookup fs k) \<longrightarrow> isTab (lookup fs k)))"
    by (simp add: IH)
  also have "\<dots> = (\<forall>k. isCurrent (lookup (x # fs) k) \<longrightarrow> isTab (lookup (x # fs) k))"
    using q by (auto simp: x lookup_Cons)
  finally show ?case .
qed

subsection \<open>Queries\<close>

text \<open>A step that leaves the map, followed by steps that leave the map, leaves the map.\<close>

lemma andThen_leaves_map:
  assumes "\<And>fs. snd (m fs) = fs" and "\<And>x fs. snd (f x fs) = fs"
  shows "snd (andThen m f fs) = fs"
proof (cases "m fs")
  case (Pair r fs')
  have "fs' = fs" using assms(1) [of fs] Pair by simp
  then show ?thesis
    using Pair assms(2) by (cases r) (simp_all add: andThen_def)
qed

lemma getCurrentFileLoop_leaves_map: "snd (getCurrentFileLoop ps fs) = fs"
proof (induction ps arbitrary: fs)
  case Nil
  then show ?case by (simp add: returns_def)
next
  case (Cons p ps)
  show ?case
    unfolding getCurrentFileLoop.simps
    by (rule andThen_leaves_map)
       (simp_all add: readEntry_def throws_def returns_def Cons.IH split: entry.splits)
qed

lemma getTabsLoop_leaves_map: "snd (getTabsLoop ps ts fs) = fs"
proof (induction ps arbitrary: ts fs)
  case Nil
  then show ?case by (simp add: returns_def)
next
  case (Cons p ps)
  show ?case
    unfolding getTabsLoop.simps
    by (rule andThen_leaves_map)
       (simp_all add: readEntry_def throws_def Cons.IH split: entry.splits)
qed

lemma getBuildFilesLoop_leaves_map: "snd (getBuildFilesLoop ps bs fs) = fs"
proof (induction ps arbitrary: bs fs)
  case Nil
  then show ?case by (simp add: returns_def)
next
  case (Cons p ps)
  show ?case
    unfolding getBuildFilesLoop.simps
    by (rule andThen_leaves_map)
       (simp_all add: readEntry_def throws_def Cons.IH split: entry.splits option.splits)
qed

text \<open>A loop returns when every key it reads holds an item.\<close>

lemma getCurrentFileLoop_returns:
  "\<forall>k \<in> set ps. lookup fs k \<noteq> Undefined \<Longrightarrow> \<exists>r. getCurrentFileLoop ps fs = (Returned r, fs)"
proof (induction ps)
  case Nil
  then show ?case by (simp add: returns_def)
next
  case (Cons p ps)
  then obtain i where "lookup fs p = Item i" by (cases "lookup fs p") auto
  then show ?case
    using Cons by (auto simp: andThen_def readEntry_def returns_def)
qed

lemma getTabsLoop_returns:
  "\<forall>k \<in> set ps. lookup fs k \<noteq> Undefined \<Longrightarrow> \<exists>r. getTabsLoop ps ts fs = (Returned r, fs)"
proof (induction ps arbitrary: ts)
  case Nil
  then show ?case by (simp add: returns_def)
next
  case (Cons p ps)
  then obtain i where "lookup fs p = Item i" by (cases "lookup fs p") auto
  then show ?case
    using Cons by (auto simp: andThen_def readEntry_def)
qed

lemma getBuildFilesLoop_returns:
  "\<forall>k \<in> set ps. lookup fs k \<noteq> Undefined \<Longrightarrow> \<exists>r. getBuildFilesLoop ps bs fs = (Returned r, fs)"
proof (induction ps arbitrary: bs)
  case Nil
  then show ?case by (simp add: returns_def)
next
  case (Cons p ps)
  then obtain i where "lookup fs p = Item i" by (cases "lookup fs p") auto
  then show ?case
    using Cons by (auto simp: andThen_def readEntry_def split: option.splits)
qed

text \<open>\<open>split\<close> by a string that occurs gives at least two pieces, so
  \<open>getFolderContent\<close> reads no piece that is not there when the path is not empty.\<close>

lemma split_at_nonempty: "split_at sep s \<noteq> []"
  by (induction sep s rule: split_at.induct) (auto split: list.splits)

lemma split_at_two:
  "sep \<noteq> [] \<Longrightarrow> includesStr s sep \<Longrightarrow> 2 \<le> length (split_at sep s)"
proof (induction sep s rule: split_at.induct)
  case (1 sep)
  then show ?case by simp
next
  case (2 sep c cs)
  show ?case
  proof (cases "prefix sep (c # cs)")
    case True
    have "1 \<le> length (split_at sep (drop (length sep) (c # cs)))"
      using split_at_nonempty [of sep "drop (length sep) (c # cs)"]
      by (cases "split_at sep (drop (length sep) (c # cs))") simp_all
    then show ?thesis using True "2.prems"(1) by simp
  next
    case False
    then have "includesStr cs sep" using "2.prems"(2) by simp
    then have "2 \<le> length (split_at sep cs)" using "2.IH"(2) False "2.prems"(1) by simp
    then show ?thesis using False by (auto split: list.splits)
  qed
qed

lemma folderContentOf_returns:
  "p \<noteq> [] \<Longrightarrow> \<exists>r. folderContentOf p ks acc = Returned r"
proof (induction ks arbitrary: acc)
  case Nil
  then show ?case by simp
next
  case (Cons k ks)
  show ?case
  proof (cases "includesStr k p")
    case False
    then show ?thesis using Cons by simp
  next
    case True
    then have "2 \<le> length (split k p)"
      using split_at_two [of p k] Cons.prems by (simp add: split_def)
    then have "index (split k p) 1 = Some (split k p ! 1)"
      by (simp add: index_def)
    then obtain tail where tail: "index (split k p) 1 = Some tail" by blast
    have "split tail ''/'' \<noteq> []"
      using split_at_nonempty [of "''/''" tail] by (simp add: split_def)
    then have "index (split tail ''/'') 0 = Some (split tail ''/'' ! 0)"
      by (simp add: index_def)
    then obtain item where item: "index (split tail ''/'') 0 = Some item" by blast
    show ?thesis
      using True tail item Cons.IH [OF Cons.prems] by simp
  qed
qed

text \<open>
  C10, as the code has it. Each of the queries \<open>getFolderContent\<close>,
  \<open>getCurrentFile\<close>, \<open>getTabs\<close>, \<open>getBuildFiles\<close> and
  \<open>getFileContentFromPath\<close> leaves the map as it found it, for every map and every
  argument, also when the query throws. \<open>getFileContentFromPath\<close> returns a result
  for every input, \<open>getFolderContent\<close> for every path that is not the empty string, and
  \<open>getCurrentFile\<close>, \<open>getTabs\<close> and \<open>getBuildFiles\<close> whenever every value of the
  map is an item.
\<close>

theorem queries_leave_map:
  "snd (getFolderContent p fs) = fs
   \<and> snd (getCurrentFile fs) = fs
   \<and> snd (getTabs fs) = fs
   \<and> snd (getBuildFiles fs) = fs
   \<and> snd (getFileContentFromPath p fs) = fs
   \<and> (\<exists>r. fst (getFileContentFromPath p fs) = Returned r)
   \<and> (p \<noteq> [] \<longrightarrow> (\<exists>r. fst (getFolderContent p fs) = Returned r))
   \<and> (noUndefined fs \<longrightarrow>
        (\<exists>r. fst (getCurrentFile fs) = Returned r)
        \<and> (\<exists>r. fst (getTabs fs) = Returned r)
        \<and> (\<exists>r. fst (getBuildFiles fs) = Returned r))"
proof -
  have keys: "\<And>fs. snd (keysOf fs) = fs" by (simp add: keysOf_def)
  have f1: "snd (getFolderContent p fs) = fs"
    unfolding getFolderContent_def
    by (rule andThen_leaves_map [OF keys])
       (simp add: returns_def throws_def split: outcome.splits)
  have f2: "snd (getCurrentFile fs) = fs"
    unfolding getCurrentFile_def
    by (rule andThen_leaves_map [OF keys]) (rule getCurrentFileLoop_leaves_map)
  have f3: "snd (getTabs fs) = fs"
    unfolding getTabs_def
    by (rule andThen_leaves_map [OF keys]) (rule getTabsLoop_leaves_map)
  have f4: "snd (getBuildFiles fs) = fs"
    unfolding getBuildFiles_def
    by (rule andThen_leaves_map [OF keys]) (rule getBuildFilesLoop_leaves_map)
  have f5: "snd (getFileContentFromPath p fs) = fs"
    unfolding getFileContentFromPath_def
    by (rule andThen_leaves_map) (simp_all add: readEntry_def returns_def)
  have r5: "\<exists>r. fst (getFileContentFromPath p fs) = Returned r"
    by (simp add: getFileContentFromPath_def andThen_def readEntry_def returns_def)
  have r1: "\<exists>r. fst (getFolderContent p fs) = Returned r" if pne: "p \<noteq> []"
  proof -
    obtain r where "folderContentOf p (map fst fs) \<lparr>folders = [], files = []\<rparr> = Returned r"
      using folderContentOf_returns [OF pne] by blast
    then show ?thesis
      by (simp add: getFolderContent_def andThen_def keysOf_def returns_def)
  qed
  have r234: "(\<exists>r. fst (getCurrentFile fs) = Returned r)
        \<and> (\<exists>r. fst (getTabs fs) = Returned r)
        \<and> (\<exists>r. fst (getBuildFiles fs) = Returned r)" if nu: "noUndefined fs"
  proof -
    have items: "\<forall>k \<in> set (map fst fs). lookup fs k \<noteq> Undefined"
      using lookup_key_not_Undefined [OF nu] by simp
    obtain a where "getCurrentFileLoop (map fst fs) fs = (Returned a, fs)"
      using getCurrentFileLoop_returns [OF items] by blast
    moreover obtain b where "getTabsLoop (map fst fs) [] fs = (Returned b, fs)"
      using getTabsLoop_returns [OF items] by blast
    moreover obtain c where "getBuildFilesLoop (map fst fs) [] fs = (Returned c, fs)"
      using getBuildFilesLoop_returns [OF items] by blast
    ultimately show ?thesis
      by (simp add: getCurrentFile_def getTabs_def getBuildFiles_def andThen_def keysOf_def)
  qed
  show ?thesis using f1 f2 f3 f4 f5 r5 r1 r234 by blast
qed

text \<open>The theorem at the default kind of project, one file under \<open>/src/\<close>, and the
  folder path \<open>/src/\<close>: each query returns and the map is as it was.\<close>

theorem queries_leave_map_witness:
  "''/src/'' \<noteq> []
   \<and> noUndefined [(''/src/lib.rs'', Item \<lparr>content = Some ''x'', current = Some True, tabs = Some True\<rparr>)]
   \<and> snd (getFolderContent ''/src/''
        [(''/src/lib.rs'', Item \<lparr>content = Some ''x'', current = Some True, tabs = Some True\<rparr>)])
     = [(''/src/lib.rs'', Item \<lparr>content = Some ''x'', current = Some True, tabs = Some True\<rparr>)]
   \<and> (\<exists>r. fst (getFolderContent ''/src/''
        [(''/src/lib.rs'', Item \<lparr>content = Some ''x'', current = Some True, tabs = Some True\<rparr>)]) = Returned r)
   \<and> (\<exists>r. fst (getCurrentFile
        [(''/src/lib.rs'', Item \<lparr>content = Some ''x'', current = Some True, tabs = Some True\<rparr>)]) = Returned r)
   \<and> (\<exists>r. fst (getTabs
        [(''/src/lib.rs'', Item \<lparr>content = Some ''x'', current = Some True, tabs = Some True\<rparr>)]) = Returned r)
   \<and> (\<exists>r. fst (getBuildFiles
        [(''/src/lib.rs'', Item \<lparr>content = Some ''x'', current = Some True, tabs = Some True\<rparr>)]) = Returned r)
   \<and> getFolderContent ''/src/''
        [(''/src/lib.rs'', Item \<lparr>content = Some ''x'', current = Some True, tabs = Some True\<rparr>)]
     = (Returned \<lparr>folders = [], files = [''lib.rs'']\<rparr>,
        [(''/src/lib.rs'', Item \<lparr>content = Some ''x'', current = Some True, tabs = Some True\<rparr>)])
   \<and> getTabs
        [(''/src/lib.rs'', Item \<lparr>content = Some ''x'', current = Some True, tabs = Some True\<rparr>)]
     = (Returned [\<lparr>content = Some ''x'', current = Some True, tabs = None, path = ''/src/lib.rs''\<rparr>],
        [(''/src/lib.rs'', Item \<lparr>content = Some ''x'', current = Some True, tabs = Some True\<rparr>)])"
proof -
  have h1: "''/src/'' \<noteq> []" by simp
  have h2: "noUndefined [(''/src/lib.rs'', Item \<lparr>content = Some ''x'', current = Some True, tabs = Some True\<rparr>)]"
    by code_simp
  have h3: "getFolderContent ''/src/''
        [(''/src/lib.rs'', Item \<lparr>content = Some ''x'', current = Some True, tabs = Some True\<rparr>)]
     = (Returned \<lparr>folders = [], files = [''lib.rs'']\<rparr>,
        [(''/src/lib.rs'', Item \<lparr>content = Some ''x'', current = Some True, tabs = Some True\<rparr>)])"
    by code_simp
  have h4: "getTabs
        [(''/src/lib.rs'', Item \<lparr>content = Some ''x'', current = Some True, tabs = Some True\<rparr>)]
     = (Returned [\<lparr>content = Some ''x'', current = Some True, tabs = None, path = ''/src/lib.rs''\<rparr>],
        [(''/src/lib.rs'', Item \<lparr>content = Some ''x'', current = Some True, tabs = Some True\<rparr>)])"
    by code_simp
  show ?thesis
    using queries_leave_map [of "''/src/''"
        "[(''/src/lib.rs'', Item \<lparr>content = Some ''x'', current = Some True, tabs = Some True\<rparr>)]"]
      h1 h2 h3 h4
    by blast
qed

text \<open>
  C10 as stated fails in its second half: a query does not return a result for every
  input. \<open>getFolderContent("")\<close> throws on the map with the one key \<open>/\<close>, and on
  the map that renaming the missing file \<open>/q.rs\<close> leaves, with \<open>undefined\<close> under
  \<open>/y.rs\<close>, each of \<open>getCurrentFile\<close>, \<open>getTabs\<close> and \<open>getBuildFiles\<close> throws. The
  map is as it was in each case.
\<close>

theorem queries_leave_map_counterexample:
  "getFolderContent [] [(''/'', Item emptyItem)] = (TypeError, [(''/'', Item emptyItem)])
   \<and> run [RenameItem ''/q.rs'' ''y.rs''] [(''/a/'', Item emptyItem)]
       = [(''/a/'', Item emptyItem), (''/y.rs'', Undefined)]
   \<and> getCurrentFile [(''/a/'', Item emptyItem), (''/y.rs'', Undefined)]
       = (TypeError, [(''/a/'', Item emptyItem), (''/y.rs'', Undefined)])
   \<and> getTabs [(''/a/'', Item emptyItem), (''/y.rs'', Undefined)]
       = (TypeError, [(''/a/'', Item emptyItem), (''/y.rs'', Undefined)])
   \<and> getBuildFiles [(''/a/'', Item emptyItem), (''/y.rs'', Undefined)]
       = (TypeError, [(''/a/'', Item emptyItem), (''/y.rs'', Undefined)])"
  by code_simp

text \<open>
  The loops of \<open>getCurrentFile\<close> and \<open>getTabs\<close> on an object, where each key stands
  once: the results that \<open>changeCurrentFile\<close> and \<open>changeCurrentFileToTheLastTab\<close>
  work with.
\<close>

lemma lookup_entry: "distinct (map fst fs) \<Longrightarrow> \<forall>(k, e) \<in> set fs. lookup fs k = e"
  by (auto simp: lookup_def)

lemma getCurrentFileLoop_currentOf:
  "\<forall>(k, e) \<in> set gs. lookup fs k = e \<Longrightarrow>
   getCurrentFileLoop (map fst gs) fs = (currentOf gs, fs)"
  by (induction gs rule: currentOf.induct)
     (simp_all add: andThen_def readEntry_def returns_def throws_def)

lemma getCurrentFile_currentOf:
  "distinct (map fst fs) \<Longrightarrow> getCurrentFile fs = (currentOf fs, fs)"
  using getCurrentFileLoop_currentOf [OF lookup_entry, of fs]
  by (simp add: getCurrentFile_def andThen_def keysOf_def)

lemma getTabsLoop_tabsOf:
  "\<forall>(k, e) \<in> set gs. lookup fs k = e \<Longrightarrow>
   getTabsLoop (map fst gs) acc fs =
     (case tabsOf gs of Returned ts \<Rightarrow> Returned (acc @ ts) | TypeError \<Rightarrow> TypeError, fs)"
  by (induction gs arbitrary: acc rule: tabsOf.induct)
     (auto simp: andThen_def readEntry_def returns_def throws_def split: outcome.splits)

lemma getTabs_tabsOf:
  "distinct (map fst fs) \<Longrightarrow> getTabs fs = (tabsOf fs, fs)"
  using getTabsLoop_tabsOf [OF lookup_entry, of fs "[]"]
  by (simp add: getTabs_def andThen_def keysOf_def split: outcome.splits)

subsection \<open>Renaming a folder\<close>

text \<open>
  C1. Renaming the folder \<open>/a/\<close> to \<open>b\<close> in a map with the files \<open>/a/x.rs\<close> and
  \<open>/a/sub/y.rs\<close> returns without an error and keeps the two values, but the rebuilt
  keys are \<open>/b/x.rs/\<close> and \<open>/b/sub/y.rs/\<close>: the loop over the segments appends a
  slash after every segment, the last one included, so the keys it writes are not the
  paths with the segment substituted.
\<close>

theorem renameItem_folder_trailing_slash:
  "renameItem ''/a/'' ''b''
     [(''/a/x.rs'', Item \<lparr>content = Some ''x'', current = Some True, tabs = Some True\<rparr>),
      (''/a/sub/y.rs'', Item \<lparr>content = Some ''y'', current = None, tabs = None\<rparr>)]
   = (Returned None,
      [(''/b/x.rs/'', Item \<lparr>content = Some ''x'', current = Some True, tabs = Some True\<rparr>),
       (''/b/sub/y.rs/'', Item \<lparr>content = Some ''y'', current = None, tabs = None\<rparr>)])"
  by code_simp

text \<open>The defect is in every key the loop writes: the rebuilt path ends with a slash,
  so no file key is moved to a file path.\<close>

lemma foldl_replaceSegment_ends:
  "xs \<noteq> [] \<or> endsWithSlash acc \<Longrightarrow> endsWithSlash (foldl (replaceSegment old new) acc xs)"
  by (induction xs arbitrary: acc) (auto simp: replaceSegment_def endsWithSlash_def)

lemma renamedPath_is_folder:
  "getItemTypeFromPath (renamedPath fullPath newName p) = IsFolder"
proof -
  have "split p ''/'' \<noteq> []" using split_at_nonempty by (simp add: split_def)
  then have "endsWithSlash (renamedPath fullPath newName p)"
    by (simp add: renamedPath_def foldl_replaceSegment_ends)
  then show ?thesis by (simp add: getItemTypeFromPath_def)
qed

text \<open>
  What does hold of the folder branch: when it returns without an error on a map with
  each key once and every value an item, every key \<open>p\<close> has become
  \<open>renamedPath fullPath newName p\<close> and holds the value it held, in the same order.
  No entry is lost or duplicated, and content, tabs and current flags are carried over.
\<close>

lemma delete_head:
  "k \<notin> fst ` set fs \<Longrightarrow> AList.delete k ((k, v) # fs) = fs"
  by (simp add: AList.delete_eq) (induction fs, auto)

lemma renameFolder_moves:
  assumes "distinct (map fst (hs @ acc))" "noUndefined (hs @ acc)"
    and "fst (renameFolder fullPath newName (map fst hs) (hs @ acc)) = Returned None"
  shows "snd (renameFolder fullPath newName (map fst hs) (hs @ acc))
         = acc @ map (\<lambda>(p, e). (renamedPath fullPath newName p, e)) hs"
  using assms
proof (induction hs arbitrary: acc)
  case Nil
  then show ?case by simp
next
  case (Cons h hs)
  obtain p e where h: "h = (p, e)" by (cases h)
  define q where "q = renamedPath fullPath newName p"
  have nk: "p \<notin> fst ` set (hs @ acc)" using Cons.prems(1) by (auto simp: h)
  have key: "p \<in> fst ` set ((h # hs) @ acc)" by (simp add: h)
  have free: "lookup ((h # hs) @ acc) q = Undefined"
  proof (rule ccontr)
    assume "lookup ((h # hs) @ acc) q \<noteq> Undefined"
    then have "fst (renameFolder fullPath newName (map fst (h # hs)) ((h # hs) @ acc))
        = Returned (Some AlreadyExists)"
      using key by (simp add: h q_def Let_def)
    with Cons.prems(3) show False by simp
  qed
  have nq: "q \<notin> fst ` set ((h # hs) @ acc)"
    using lookup_Undefined_absent [OF Cons.prems(2) free] .
  have pe: "lookup ((h # hs) @ acc) p = e" by (simp add: h lookup_Cons)
  have del: "AList.delete p ((h # hs) @ acc) = hs @ acc"
    using nk delete_head [of p "hs @ acc" e] by (simp add: h)
  have nq': "q \<notin> fst ` set (hs @ acc)" using nq by (auto simp: h)
  have step: "AList.update q (lookup ((h # hs) @ acc) p) (AList.delete p ((h # hs) @ acc))
      = hs @ (acc @ [(q, e)])"
  proof -
    have "AList.update q (lookup ((h # hs) @ acc) p) (AList.delete p ((h # hs) @ acc))
        = AList.update q e (hs @ acc)"
      by (simp only: pe del)
    also have "\<dots> = (hs @ acc) @ [(q, e)]" using nq' by (rule update_absent)
    finally show ?thesis by simp
  qed
  have r: "renameFolder fullPath newName (map fst (h # hs)) ((h # hs) @ acc)
      = renameFolder fullPath newName (map fst hs) (hs @ (acc @ [(q, e)]))"
    using key free step by (simp add: h q_def Let_def)
  have d': "distinct (map fst (hs @ (acc @ [(q, e)])))"
    using Cons.prems(1) nq' by (auto simp: h)
  have e_def: "e \<noteq> Undefined" using Cons.prems(2) by (simp add: h noUndefined_def)
  have nu': "noUndefined (hs @ (acc @ [(q, e)]))"
    using Cons.prems(2) e_def by (simp add: h noUndefined_def)
  have ok': "fst (renameFolder fullPath newName (map fst hs) (hs @ (acc @ [(q, e)]))) = Returned None"
    using Cons.prems(3) r by simp
  show ?case
    using Cons.IH [OF d' nu' ok'] r by (simp add: h q_def)
qed

lemma renameItem_folder_success:
  assumes "wellFormed fs" "getItemTypeFromPath fullPath = IsFolder"
    and "fst (renameItem fullPath newName fs) = Returned None"
  shows "snd (renameItem fullPath newName fs)
         = map (\<lambda>(p, e). (renamedPath fullPath newName p, e)) fs"
proof -
  have v: "isItemNameValid newName"
    using assms(3) by (auto simp: renameItem_def split: if_splits)
  then have r: "renameItem fullPath newName fs = renameFolder fullPath newName (map fst fs) fs"
    using assms(2) by (simp add: renameItem_def)
  show ?thesis
    using renameFolder_moves [of fs "[]" fullPath newName] assms(1,3)
    by (simp add: r wellFormed_def)
qed

text \<open>
  C2. Renaming the folder \<open>/a/\<close>, which holds \<open>/a/m.rs\<close>, to \<open>b\<close> while \<open>/b/\<close> is a
  key returns \<open>AlreadyExists\<close>, but only at the third key of the loop: the first two
  keys have been moved by then, and the map the call leaves no longer holds
  \<open>/a/\<close> or \<open>/a/m.rs\<close>.
\<close>

theorem renameItem_folder_partial_commit:
  "renameItem ''/a/'' ''b''
     [(''/a/'', Item emptyItem),
      (''/a/m.rs'', Item \<lparr>content = Some ''m'', current = Some True, tabs = Some True\<rparr>),
      (''/b/'', Item emptyItem)]
   = (Returned (Some AlreadyExists),
      [(''/b/'', Item emptyItem),
       (''/b//'', Item emptyItem),
       (''/b/m.rs/'', Item \<lparr>content = Some ''m'', current = Some True, tabs = Some True\<rparr>)])"
  by code_simp

text \<open>The errors that are returned before any write leave the map as it was:
  \<open>InvalidName\<close>, and \<open>AlreadyExists\<close> when a file is renamed.\<close>

lemma renameFolder_not_InvalidName:
  "fst (renameFolder fullPath newName ps fs) \<noteq> Returned (Some InvalidName)"
  by (induction ps arbitrary: fs) (auto simp: Let_def)

lemma renameItem_InvalidName_unchanged:
  "fst (renameItem p n fs) = Returned (Some InvalidName) \<Longrightarrow> snd (renameItem p n fs) = fs"
  using renameFolder_not_InvalidName [of p n "map fst fs" fs]
  by (auto simp: renameItem_def Let_def split: if_splits ItemType.splits)

lemma renameItem_file_error_unchanged:
  "getItemTypeFromPath p = IsFile \<Longrightarrow> fst (renameItem p n fs) = Returned (Some e) \<Longrightarrow>
   snd (renameItem p n fs) = fs"
  by (auto simp: renameItem_def Let_def split: if_splits)

subsection \<open>Deleting\<close>

text \<open>
  C5. Deleting the file \<open>/foo\<close> also removes \<open>/foobar\<close>, which only shares the
  characters of \<open>/foo\<close> as a prefix: the loop tests \<open>path.startsWith(fullPath)\<close>.
\<close>

theorem deleteItem_raw_prefix:
  "deleteItem ''/foo''
     [(''/foo'', Item \<lparr>content = Some ''x'', current = None, tabs = None\<rparr>),
      (''/foobar'', Item \<lparr>content = Some ''y'', current = None, tabs = None\<rparr>)]
   = (Returned (), [(''/'', Item emptyItem), (''/src/'', Item emptyItem)])"
  by code_simp

text \<open>In general: every key that starts with the characters of the deleted path is
  gone after the call, the parent folder and its \<open>src/\<close> folder apart.\<close>

lemma deleteItem_removes_prefixed:
  assumes "prefix p k" "k \<noteq> getParentPathFromPath p" "k \<noteq> getParentPathFromPath p @ ''src/''"
  shows "k \<notin> fst ` set (snd (deleteItem p fs))"
proof -
  define fs1 where "fs1 = filter (\<lambda>(q, e). \<not> prefix p q) fs"
  define parent where "parent = getParentPathFromPath p"
  define fs2 where "fs2 = AList.update parent (Item emptyItem) fs1"
  define fs3 where "fs3 = (if length fs2 = 1
      then AList.update (parent @ ''src/'') (Item emptyItem) fs2 else fs2)"
  have "k \<notin> fst ` set fs1" using assms(1) by (auto simp: fs1_def)
  then have "k \<notin> fst ` set fs3"
    using assms(2,3) by (auto simp: fs3_def fs2_def dom_update parent_def)
  moreover have "map fst (snd (deleteItem p fs)) = map fst fs3"
    by (simp add: deleteItem_def Let_def fs1_def parent_def fs2_def fs3_def
        keys_changeCurrentFileToTheLastTab)
  then have "fst ` set (snd (deleteItem p fs)) = fst ` set fs3" by (metis set_map)
  ultimately show ?thesis by simp
qed

lemma foldl_addSegment_ends: "endsWithSlash acc \<Longrightarrow> endsWithSlash (foldl addSegment acc xs)"
  by (induction xs arbitrary: acc) (auto simp: addSegment_def endsWithSlash_def)

lemma parentPath_is_folder: "getItemTypeFromPath (getParentPathFromPath p) = IsFolder"
proof -
  have "endsWithSlash ''/''" by (simp add: endsWithSlash_def)
  then have "endsWithSlash (getParentPathFromPath p)"
    by (simp add: getParentPathFromPath_def Let_def foldl_addSegment_ends
        split: ItemType.splits)
  then show ?thesis by (simp add: getItemTypeFromPath_def)
qed

lemma update_length_two:
  "length fs = 1 \<Longrightarrow> k \<in> fst ` set fs \<Longrightarrow> k' \<noteq> k \<Longrightarrow> length (AList.update k' v fs) = 2"
  by (cases fs) auto

lemma filter_no_prefix:
  "list_all (\<lambda>(k, e). \<not> prefix p k) fs \<Longrightarrow> filter (\<lambda>(q, e). \<not> prefix p q) fs = fs"
  by (induction fs) auto

lemma no_prefix_not_key:
  "list_all (\<lambda>(k, e). \<not> prefix p k) fs \<Longrightarrow> p \<notin> fst ` set fs"
  by (induction fs) auto

text \<open>
  C6, as the code has it. When no key starts with \<open>p\<close> (so \<open>p\<close> is not a key and has
  no descendant), \<open>deleteItem p\<close> returns without an error and removes nothing, but it
  writes the empty folder entry at the parent path of \<open>p\<close>, adding that key when it is
  absent, and adds the folder \<open>src/\<close> under it when the map then has a single key.
  Every key stays a key, and every entry other than these two is as it was.
\<close>

theorem deleteItem_absent:
  "list_all (\<lambda>(k, e). \<not> prefix p k) fs \<Longrightarrow>
   deleteItem p fs =
     (Returned (),
      if length (AList.update (getParentPathFromPath p) (Item emptyItem) fs) = 1
      then AList.update (getParentPathFromPath p @ ''src/'') (Item emptyItem)
             (AList.update (getParentPathFromPath p) (Item emptyItem) fs)
      else AList.update (getParentPathFromPath p) (Item emptyItem) fs)
   \<and> fst ` set fs \<subseteq> fst ` set (snd (deleteItem p fs))
   \<and> lookup (snd (deleteItem p fs)) (getParentPathFromPath p) = Item emptyItem
   \<and> (k \<noteq> getParentPathFromPath p \<and> k \<noteq> getParentPathFromPath p @ ''src/''
        \<longrightarrow> lookup (snd (deleteItem p fs)) k = lookup fs k)"
proof -
  assume a: "list_all (\<lambda>(k, e). \<not> prefix p k) fs"
  have "lookup fs p = Undefined"
    using a by (simp add: no_prefix_not_key lookup_absent)
  then have eq: "deleteItem p fs =
     (Returned (),
      if length (AList.update (getParentPathFromPath p) (Item emptyItem) fs) = 1
      then AList.update (getParentPathFromPath p @ ''src/'') (Item emptyItem)
             (AList.update (getParentPathFromPath p) (Item emptyItem) fs)
      else AList.update (getParentPathFromPath p) (Item emptyItem) fs)"
    using a by (simp add: deleteItem_def Let_def filter_no_prefix)
  show ?thesis
    unfolding eq by (auto simp: dom_update lookup_update)
qed

text \<open>The theorem at the map with the one file \<open>/src/lib.rs\<close> and the absent path
  \<open>/src/x.rs\<close>: the folder \<open>/src/\<close> is added, the file is as it was.\<close>

theorem deleteItem_absent_witness:
  "list_all (\<lambda>(k, e). \<not> prefix ''/src/x.rs'' k)
     [(''/src/lib.rs'', Item \<lparr>content = Some ''x'', current = Some True, tabs = Some True\<rparr>)]
   \<and> deleteItem ''/src/x.rs''
       [(''/src/lib.rs'', Item \<lparr>content = Some ''x'', current = Some True, tabs = Some True\<rparr>)]
     = (Returned (),
        [(''/src/lib.rs'', Item \<lparr>content = Some ''x'', current = Some True, tabs = Some True\<rparr>),
         (''/src/'', Item emptyItem)])
   \<and> lookup (snd (deleteItem ''/src/x.rs''
       [(''/src/lib.rs'', Item \<lparr>content = Some ''x'', current = Some True, tabs = Some True\<rparr>)])) ''/src/lib.rs''
     = Item \<lparr>content = Some ''x'', current = Some True, tabs = Some True\<rparr>"
proof -
  have h: "list_all (\<lambda>(k, e). \<not> prefix ''/src/x.rs'' k)
     [(''/src/lib.rs'', Item \<lparr>content = Some ''x'', current = Some True, tabs = Some True\<rparr>)]"
    by simp
  have p: "getParentPathFromPath ''/src/x.rs'' = ''/src/''" by code_simp
  show ?thesis
    using h deleteItem_absent [OF h, of "''/src/lib.rs''"]
    by (simp add: p lookup_def)
qed

text \<open>C6 as stated fails: \<open>/src/x.rs\<close> is not a key of the map and no key starts with
  it, and \<open>deleteItem\<close> leaves a map with one more key.\<close>

theorem deleteItem_absent_counterexample:
  "''/src/x.rs'' \<notin> fst ` set [(''/src/lib.rs'', Item \<lparr>content = Some ''x'', current = Some True, tabs = Some True\<rparr>)]
   \<and> \<not> prefix ''/src/x.rs'' ''/src/lib.rs''
   \<and> deleteItem ''/src/x.rs''
       [(''/src/lib.rs'', Item \<lparr>content = Some ''x'', current = Some True, tabs = Some True\<rparr>)]
     = (Returned (),
        [(''/src/lib.rs'', Item \<lparr>content = Some ''x'', current = Some True, tabs = Some True\<rparr>),
         (''/src/'', Item \<lparr>content = None, current = None, tabs = None\<rparr>)])
   \<and> [(''/src/lib.rs'', Item \<lparr>content = Some ''x'', current = Some True, tabs = Some True\<rparr>),
       (''/src/'', Item \<lparr>content = None, current = None, tabs = None\<rparr>)]
     \<noteq> [(''/src/lib.rs'', Item \<lparr>content = Some ''x'', current = Some True, tabs = Some True\<rparr>)]"
  by code_simp

subsection \<open>Saving\<close>

text \<open>
  C7, as the code has it. For every path \<open>p\<close> and string \<open>c\<close>, \<open>saveFile p c\<close>
  returns without an error and keeps the keys and their order. When \<open>p\<close> is a key that
  holds an item, a file or a folder alike, the content of that item becomes \<open>c\<close> and its
  other fields stay; every other entry is as it was; when \<open>p\<close> is not a key the map is
  unchanged.
\<close>

theorem saveFile_any_key:
  "absolutePath p \<Longrightarrow>
   fst (saveFile p c fs) = Returned ()
   \<and> map fst (snd (saveFile p c fs)) = map fst fs
   \<and> lookup (snd (saveFile p c fs)) p =
       (case lookup fs p of Undefined \<Rightarrow> Undefined | Item i \<Rightarrow> Item (i\<lparr>content := Some c\<rparr>))
   \<and> (k \<noteq> p \<longrightarrow> lookup (snd (saveFile p c fs)) k = lookup fs k)
   \<and> (p \<notin> fst ` set fs \<longrightarrow> snd (saveFile p c fs) = fs)"
proof (cases "lookup fs p")
  case Undefined
  then show ?thesis by (simp add: saveFile_def)
next
  case (Item i)
  then have "p \<in> fst ` set fs" by (simp add: lookup_present)
  with Item show ?thesis by (simp add: saveFile_def update_keys lookup_update)
qed

text \<open>The theorem at a map with the folder \<open>/src/\<close> and the file \<open>/a.rs\<close>: saving to
  the folder writes its content, the file is as it was, and saving to the absent path
  \<open>/b.rs\<close> changes nothing.\<close>

theorem saveFile_any_key_witness:
  "absolutePath ''/src/'' \<and> absolutePath ''/b.rs''
   \<and> lookup (snd (saveFile ''/src/'' ''x'' [(''/src/'', Item emptyItem), (''/a.rs'', Item emptyItem)])) ''/src/''
     = Item (emptyItem\<lparr>content := Some ''x''\<rparr>)
   \<and> lookup (snd (saveFile ''/src/'' ''x'' [(''/src/'', Item emptyItem), (''/a.rs'', Item emptyItem)])) ''/a.rs''
     = Item emptyItem
   \<and> snd (saveFile ''/b.rs'' ''x'' [(''/src/'', Item emptyItem), (''/a.rs'', Item emptyItem)])
     = [(''/src/'', Item emptyItem), (''/a.rs'', Item emptyItem)]"
proof -
  have h1: "absolutePath ''/src/''" by (simp add: absolutePath_def)
  have h2: "absolutePath ''/b.rs''" by (simp add: absolutePath_def)
  show ?thesis
    using h1 h2
      saveFile_any_key [OF h1, of "''x''" "[(''/src/'', Item emptyItem), (''/a.rs'', Item emptyItem)]" "''/a.rs''"]
      saveFile_any_key [OF h2, of "''x''" "[(''/src/'', Item emptyItem), (''/a.rs'', Item emptyItem)]" "''/a.rs''"]
    by (simp add: lookup_def)
qed

text \<open>C7 as stated fails: \<open>/src/\<close> is a folder path, and saving to it changes the
  map.\<close>

theorem saveFile_folder_counterexample:
  "absolutePath ''/src/'' \<and> getItemTypeFromPath ''/src/'' = IsFolder
   \<and> saveFile ''/src/'' ''x'' [(''/src/'', Item \<lparr>content = None, current = None, tabs = None\<rparr>)]
     = (Returned (), [(''/src/'', Item \<lparr>content = Some ''x'', current = None, tabs = None\<rparr>)])
   \<and> [(''/src/'', Item \<lparr>content = Some ''x'', current = None, tabs = None\<rparr>)]
     \<noteq> [(''/src/'', Item \<lparr>content = None, current = None, tabs = None\<rparr>)]"
  by code_simp

subsection \<open>What changeCurrentFile does\<close>

lemma assign_effect:
  assumes "lookup fs k = Item i" "noUndefined fs"
  shows "assign k f fs = Some (AList.update k (Item (f i)) fs)
         \<and> map fst (AList.update k (Item (f i)) fs) = map fst fs
         \<and> noUndefined (AList.update k (Item (f i)) fs)"
proof -
  have "k \<in> fst ` set fs" using assms(1) by (simp add: lookup_present)
  then show ?thesis
    using assms by (simp add: assign_Some update_keys noUndefined_update)
qed

lemma clear_current_effect:
  assumes d: "distinct (map fst fs)" and nu: "noUndefined fs"
    and cur: "currentOf fs = Returned cur"
  shows "\<exists>fs1. (case cur of None \<Rightarrow> Some fs
                | Some f \<Rightarrow> assign (path f) (\<lambda>i. i\<lparr>current := Some False\<rparr>) fs) = Some fs1
        \<and> map fst fs1 = map fst fs \<and> noUndefined fs1
        \<and> (\<forall>k. lookup fs1 k =
              (if Some k = map_option path cur
               then (case lookup fs k of Undefined \<Rightarrow> Undefined
                     | Item j \<Rightarrow> Item (j\<lparr>current := Some False\<rparr>))
               else lookup fs k))"
proof (cases cur)
  case None
  then show ?thesis using nu by simp
next
  case (Some f)
  have "isCurrent (lookup fs (path f))"
    using currentOf_Some [OF d] cur Some by simp
  then obtain j where j: "lookup fs (path f) = Item j"
    by (cases "lookup fs (path f)") (simp_all add: isCurrent_Undefined)
  show ?thesis
    using assign_effect [OF j nu, of "\<lambda>i. i\<lparr>current := Some False\<rparr>"] Some j
    by (auto simp: lookup_update)
qed

lemma changeCurrentFile_effect:
  assumes d: "distinct (map fst fs)" and nu: "noUndefined fs"
    and cur: "currentOf fs = Returned cur" and i: "lookup fs p = Item i"
  shows "\<exists>fs' t. changeCurrentFile p fs = (Returned (), fs')
       \<and> map fst fs' = map fst fs \<and> noUndefined fs'
       \<and> (t = Some True \<or> t = tabs i) \<and> (prefix ''/'' p \<longrightarrow> t = Some True)
       \<and> (\<forall>k. lookup fs' k =
             (if k = p then Item (i\<lparr>current := Some True, tabs := t\<rparr>)
              else if Some k = map_option path cur
                   then (case lookup fs k of Undefined \<Rightarrow> Undefined
                         | Item j \<Rightarrow> Item (j\<lparr>current := Some False\<rparr>))
                   else lookup fs k))"
proof -
  define clear where "clear = (\<lambda>e. case e of Undefined \<Rightarrow> Undefined
                         | Item j \<Rightarrow> Item (j\<lparr>current := Some False\<rparr>))"
  \<comment> \<open>the flag of the current file is cleared\<close>
  obtain fs1 where
    s1: "(case cur of None \<Rightarrow> Some fs
          | Some f \<Rightarrow> assign (path f) (\<lambda>i. i\<lparr>current := Some False\<rparr>) fs) = Some fs1"
    and k1: "map fst fs1 = map fst fs" and nu1: "noUndefined fs1"
    and l1: "\<And>k. lookup fs1 k = (if Some k = map_option path cur then clear (lookup fs k) else lookup fs k)"
    using clear_current_effect [OF d nu cur] unfolding clear_def by blast
  \<comment> \<open>the flag of the new path is set\<close>
  define i1 where "i1 = (if Some p = map_option path cur then i\<lparr>current := Some False\<rparr> else i)"
  have li1: "lookup fs1 p = Item i1" by (simp add: l1 i i1_def clear_def)
  have i1': "i1\<lparr>current := Some True\<rparr> = i\<lparr>current := Some True\<rparr>" by (simp add: i1_def)
  define fs2 where "fs2 = AList.update p (Item (i\<lparr>current := Some True\<rparr>)) fs1"
  have s2: "assign p (\<lambda>i. i\<lparr>current := Some True\<rparr>) fs1 = Some fs2"
    and k2: "map fst fs2 = map fst fs1" and nu2: "noUndefined fs2"
    using assign_effect [OF li1 nu1, of "\<lambda>i. i\<lparr>current := Some True\<rparr>"]
    by (simp_all add: i1' fs2_def)
  have l2: "\<And>k. lookup fs2 k = (if k = p then Item (i\<lparr>current := Some True\<rparr>) else lookup fs1 k)"
    by (simp add: fs2_def lookup_update)
  obtain ts where ts: "tabsOf fs2 = Returned ts" using tabsOf_Returned [OF nu2] by blast
  have li2: "lookup fs2 p = Item (i\<lparr>current := Some True\<rparr>)" by (simp add: l2)
  define fs3 where "fs3 = AList.update p (Item (i\<lparr>current := Some True, tabs := Some True\<rparr>)) fs2"
  have s3: "assign p (\<lambda>i. i\<lparr>tabs := Some True\<rparr>) fs2 = Some fs3"
    and k3: "map fst fs3 = map fst fs2" and nu3: "noUndefined fs3"
    using assign_effect [OF li2 nu2, of "\<lambda>i. i\<lparr>tabs := Some True\<rparr>"]
    by (simp_all add: fs3_def)
  have l3: "\<And>k. lookup fs3 k = (if k = p then Item (i\<lparr>current := Some True, tabs := Some True\<rparr>) else lookup fs1 k)"
    by (simp add: fs3_def lookup_update l2)
  show ?thesis
  proof (cases "p \<in> set (array_keys ts)")
    case True
    then have np: "\<not> prefix ''/'' p" using absolute_not_array_key by blast
    have r: "changeCurrentFile p fs = (Returned (), fs2)"
      using True by (simp add: changeCurrentFile_def cur s1 s2 ts)
    have "\<forall>k. lookup fs2 k =
             (if k = p then Item (i\<lparr>current := Some True, tabs := tabs i\<rparr>)
              else if Some k = map_option path cur then clear (lookup fs k) else lookup fs k)"
      by (simp add: l2 l1)
    then show ?thesis
      using r k2 k1 nu2 np unfolding clear_def by (intro exI [of _ fs2] exI [of _ "tabs i"]) simp
  next
    case False
    have r: "changeCurrentFile p fs = (Returned (), fs3)"
      using False by (simp add: changeCurrentFile_def cur s1 s2 ts s3)
    have "\<forall>k. lookup fs3 k =
             (if k = p then Item (i\<lparr>current := Some True, tabs := Some True\<rparr>)
              else if Some k = map_option path cur then clear (lookup fs k) else lookup fs k)"
      by (simp add: l3 l1)
    then show ?thesis
      using r k3 k2 k1 nu3 unfolding clear_def by (intro exI [of _ fs3] exI [of _ "Some True"]) simp
  qed
qed

text \<open>Which entries are current, and which are tabs, after \<open>changeCurrentFile\<close>.\<close>

lemma changeCurrentFile_flags:
  assumes d: "distinct (map fst fs)" and nu: "noUndefined fs"
    and cur: "currentOf fs = Returned cur"
  shows "noUndefined (snd (changeCurrentFile p fs))
       \<and> (\<forall>k. isCurrent (lookup (snd (changeCurrentFile p fs)) k) \<longrightarrow>
              (k = p \<and> (prefix ''/'' p \<or> isTab (lookup fs p) \<longrightarrow> isTab (lookup (snd (changeCurrentFile p fs)) p)))
              \<or> (isCurrent (lookup fs k) \<and> Some k \<noteq> map_option path cur))
       \<and> (\<forall>k. isTab (lookup fs k) \<longrightarrow> isTab (lookup (snd (changeCurrentFile p fs)) k))"
proof (cases "lookup fs p")
  case Undefined
  obtain fs1 where
    s1: "(case cur of None \<Rightarrow> Some fs
          | Some f \<Rightarrow> assign (path f) (\<lambda>i. i\<lparr>current := Some False\<rparr>) fs) = Some fs1"
    and nu1: "noUndefined fs1"
    and l1: "\<And>k. lookup fs1 k =
              (if Some k = map_option path cur
               then (case lookup fs k of Undefined \<Rightarrow> Undefined
                     | Item j \<Rightarrow> Item (j\<lparr>current := Some False\<rparr>))
               else lookup fs k)"
    using clear_current_effect [OF d nu cur] by blast
  have "lookup fs1 p = Undefined" by (simp add: l1 Undefined)
  then have r: "changeCurrentFile p fs = (TypeError, fs1)"
    by (simp add: changeCurrentFile_def cur s1 assign_None)
  show ?thesis
    unfolding r using nu1
    by (auto simp: l1 isCurrent_def isTab_def split: entry.splits if_splits)
next
  case (Item i)
  obtain fs' t where r: "changeCurrentFile p fs = (Returned (), fs')"
    and nu': "noUndefined fs'"
    and t: "t = Some True \<or> t = tabs i" "prefix ''/'' p \<longrightarrow> t = Some True"
    and l': "\<And>k. lookup fs' k =
             (if k = p then Item (i\<lparr>current := Some True, tabs := t\<rparr>)
              else if Some k = map_option path cur
                   then (case lookup fs k of Undefined \<Rightarrow> Undefined
                         | Item j \<Rightarrow> Item (j\<lparr>current := Some False\<rparr>))
                   else lookup fs k)"
    using changeCurrentFile_effect [OF d nu cur Item] by blast
  show ?thesis
    unfolding r using nu' t Item
    by (auto simp: l' isCurrent_def isTab_def split: entry.splits if_splits)
qed

lemma wellFormed_changeCurrentFile:
  assumes "wellFormed fs"
  shows "wellFormed (snd (changeCurrentFile p fs))"
proof -
  from assms have d: "distinct (map fst fs)" and nu: "noUndefined fs"
    by (simp_all add: wellFormed_def)
  obtain cur where cur: "currentOf fs = Returned cur" using currentOf_Returned [OF nu] by blast
  show ?thesis
    using changeCurrentFile_flags [OF d nu cur, of p] d
    by (simp add: wellFormed_def keys_changeCurrentFile)
qed

text \<open>With at most one current file before, the only file that can be current after
  \<open>changeCurrentFile\<close> is the new one.\<close>

lemma changeCurrentFile_only_current:
  assumes wf: "wellFormed fs" and one: "atMostOneCurrent fs"
    and c: "isCurrent (lookup (snd (changeCurrentFile p fs)) k)"
  shows "k = p \<and> (prefix ''/'' p \<or> isTab (lookup fs p) \<longrightarrow> isTab (lookup (snd (changeCurrentFile p fs)) p))"
proof -
  from wf have d: "distinct (map fst fs)" and nu: "noUndefined fs"
    by (simp_all add: wellFormed_def)
  obtain cur where cur: "currentOf fs = Returned cur" using currentOf_Returned [OF nu] by blast
  have U: "\<And>k k'. isCurrent (lookup fs k) \<Longrightarrow> isCurrent (lookup fs k') \<Longrightarrow> k = k'"
    using one atMostOneCurrent_iff [OF d] by blast
  have found: "Some k = map_option path cur" if "isCurrent (lookup fs k)" for k
  proof (cases cur)
    case None
    then show ?thesis using currentOf_None [of fs k] cur that by simp
  next
    case (Some f)
    then have "isCurrent (lookup fs (path f))" using currentOf_Some [OF d] cur by simp
    then have "k = path f" using U that by blast
    then show ?thesis using Some by simp
  qed
  show ?thesis
    using changeCurrentFile_flags [OF d nu cur, of p] c found by blast
qed

lemma atMostOneCurrent_changeCurrentFile:
  assumes wf: "wellFormed fs" and one: "atMostOneCurrent fs"
  shows "atMostOneCurrent (snd (changeCurrentFile p fs))"
proof -
  have d': "distinct (map fst (snd (changeCurrentFile p fs)))"
    using wf by (simp add: keys_changeCurrentFile wellFormed_def)
  show ?thesis
    unfolding atMostOneCurrent_iff [OF d']
    using changeCurrentFile_only_current [OF wf one] by blast
qed

lemma currentInTabs_changeCurrentFile:
  assumes wf: "wellFormed fs" and one: "atMostOneCurrent fs"
    and p: "prefix ''/'' p \<or> isTab (lookup fs p)"
  shows "currentInTabs (snd (changeCurrentFile p fs))"
proof -
  have d': "distinct (map fst (snd (changeCurrentFile p fs)))"
    using wf by (simp add: keys_changeCurrentFile wellFormed_def)
  show ?thesis
    unfolding currentInTabs_iff [OF d']
    using changeCurrentFile_only_current [OF wf one] p by blast
qed

subsection \<open>What each call keeps\<close>

lemma wellFormed_toLastTab:
  "wellFormed fs \<Longrightarrow> wellFormed (snd (changeCurrentFileToTheLastTab fs))"
  by (simp add: changeCurrentFileToTheLastTab_def wellFormed_changeCurrentFile
      split: outcome.splits)

lemma atMostOneCurrent_toLastTab:
  "wellFormed fs \<Longrightarrow> atMostOneCurrent fs \<Longrightarrow>
   atMostOneCurrent (snd (changeCurrentFileToTheLastTab fs))"
  by (simp add: changeCurrentFileToTheLastTab_def atMostOneCurrent_changeCurrentFile
      split: outcome.splits)

text \<open>When a tab is open, \<open>changeCurrentFileToTheLastTab\<close> makes the last one current,
  whatever was current before.\<close>

lemma currentInTabs_toLastTab:
  assumes wf: "wellFormed fs" and one: "atMostOneCurrent fs"
    and ts: "tabsOf fs = Returned ts" "ts \<noteq> []"
  shows "currentInTabs (snd (changeCurrentFileToTheLastTab fs))"
proof -
  from wf have d: "distinct (map fst fs)" by (simp add: wellFormed_def)
  have "isTab (lookup fs (path (last ts)))" using last_tab [OF d ts] by simp
  then have "currentInTabs (snd (changeCurrentFile (path (last ts)) fs))"
    using currentInTabs_changeCurrentFile [OF wf one] by blast
  then show ?thesis using ts by (simp add: changeCurrentFileToTheLastTab_def)
qed

lemma toLastTab_no_tabs:
  "tabsOf fs = Returned [] \<Longrightarrow> changeCurrentFileToTheLastTab fs = (Returned (), fs)"
  by (simp add: changeCurrentFileToTheLastTab_def)

lemma currentInTabs_toLastTab_keep:
  assumes wf: "wellFormed fs" and one: "atMostOneCurrent fs" and ct: "currentInTabs fs"
  shows "currentInTabs (snd (changeCurrentFileToTheLastTab fs))"
proof -
  from wf have nu: "noUndefined fs" by (simp add: wellFormed_def)
  obtain ts where ts: "tabsOf fs = Returned ts" using tabsOf_Returned [OF nu] by blast
  show ?thesis
  proof (cases "ts = []")
    case True
    then show ?thesis using ts ct by (simp add: toLastTab_no_tabs)
  next
    case False
    then show ?thesis using currentInTabs_toLastTab [OF wf one ts] by simp
  qed
qed

subsubsection \<open>The folder that deleteItem keeps\<close>

text \<open>An entry that is neither current nor a tab is as it was after
  \<open>changeCurrentFileToTheLastTab\<close>: the call writes the current file and the last tab
  only.\<close>

lemma toLastTab_keeps_plain:
  assumes d: "distinct (map fst fs)" and k: "lookup fs k = Item i"
    and plain: "current i \<noteq> Some True" "tabs i \<noteq> Some True"
  shows "lookup (snd (changeCurrentFileToTheLastTab fs)) k = Item i"
proof (cases "tabsOf fs")
  case TypeError
  then show ?thesis using k by (simp add: changeCurrentFileToTheLastTab_def)
next
  case (Returned ts)
  show ?thesis
  proof (cases "ts = []")
    case True
    then show ?thesis using Returned k by (simp add: toLastTab_no_tabs)
  next
    case False
    define q where "q = path (last ts)"
    have nu: "noUndefined fs" using tabsOf_noUndefined [OF Returned] .
    have tq: "isTab (lookup fs q)" using last_tab [OF d Returned False] by (simp add: q_def)
    then obtain j where j: "lookup fs q = Item j"
      by (cases "lookup fs q") (simp_all add: isTab_Undefined)
    have kq: "k \<noteq> q" using tq k plain(2) by (auto simp: isTab_Item)
    obtain cur where cur: "currentOf fs = Returned cur" using currentOf_Returned [OF nu] by blast
    have kc: "Some k \<noteq> map_option path cur"
    proof
      assume "Some k = map_option path cur"
      then obtain f where f: "cur = Some f" "path f = k" by (cases cur) auto
      then have "isCurrent (lookup fs k)" using currentOf_Some [OF d] cur by auto
      then show False using k plain(1) by (simp add: isCurrent_Item)
    qed
    obtain fs' where r: "changeCurrentFile q fs = (Returned (), fs')"
      and l': "\<And>k. lookup fs' k =
             (if k = q then lookup fs' q
              else if Some k = map_option path cur
                   then (case lookup fs k of Undefined \<Rightarrow> Undefined
                         | Item j \<Rightarrow> Item (j\<lparr>current := Some False\<rparr>))
                   else lookup fs k)"
      using changeCurrentFile_effect [OF d nu cur j] by auto
    have "lookup fs' k = lookup fs k" using l' [of k] kq kc by simp
    then show ?thesis
      using Returned False r k by (simp add: changeCurrentFileToTheLastTab_def q_def)
  qed
qed

lemma update_length_one:
  "length (AList.update k v fs) = 1 \<Longrightarrow> AList.update k v fs = [(k, v)]"
proof (cases fs)
  case Nil
  then show ?thesis by simp
next
  case (Cons a rest)
  assume l: "length (AList.update k v fs) = 1"
  obtain q e where a: "a = (q, e)" by (cases a)
  show ?thesis
  proof (cases "q = k")
    case True
    then show ?thesis using l Cons a by simp
  next
    case False
    have "AList.update k v rest \<noteq> []" by simp
    then show ?thesis using l Cons a False by simp
  qed
qed

lemma keys_filter: "map fst (filter (\<lambda>(q, e). P q) fs) = filter P (map fst fs)"
  by (induction fs) auto

text \<open>
  C8. After \<open>deleteItem p\<close>, for every map and every path \<open>p\<close>, whether the call
  returned or threw, the map is not empty and a folder entry remains:
  \<^item> the parent path of \<open>p\<close> is a folder path and a key of the map, and the map has at
    least two entries;
  \<^item> the keys of the map, in order, are the keys that do not start with \<open>p\<close>, with the
    parent path added at the end when it is not among them, and with the parent path
    followed by \<open>src/\<close> added after it when the parent path would have been the sole key;
  \<^item> in that case the call returns and the map is exactly the two empty folder entries,
    the parent and its \<open>src/\<close>;
  \<^item> on an object, where each key stands once, the value under the parent path is the
    empty folder entry \<open>{}\<close>.
\<close>

theorem deleteItem_keeps_folder:
  "(let parent = getParentPathFromPath p;
        rest = filter (\<lambda>k. \<not> prefix p k) (map fst fs);
        kept = (if parent \<in> set rest then rest else rest @ [parent])
    in getItemTypeFromPath parent = IsFolder
       \<and> parent \<in> fst ` set (snd (deleteItem p fs))
       \<and> 2 \<le> length (snd (deleteItem p fs))
       \<and> map fst (snd (deleteItem p fs))
           = (if length kept = 1 then kept @ [parent @ ''src/''] else kept)
       \<and> (length kept = 1 \<longrightarrow>
            deleteItem p fs
              = (Returned (), [(parent, Item emptyItem), (parent @ ''src/'', Item emptyItem)]))
       \<and> (distinct (map fst fs) \<longrightarrow>
            lookup (snd (deleteItem p fs)) parent = Item emptyItem))"
proof -
  define fs1 where "fs1 = filter (\<lambda>(q, e). \<not> prefix p q) fs"
  define parent where "parent = getParentPathFromPath p"
  define fs2 where "fs2 = AList.update parent (Item emptyItem) fs1"
  define fs3 where "fs3 = (if length fs2 = 1
      then AList.update (parent @ ''src/'') (Item emptyItem) fs2 else fs2)"
  define rest where "rest = filter (\<lambda>k. \<not> prefix p k) (map fst fs)"
  define kept where "kept = (if parent \<in> set rest then rest else rest @ [parent])"
  have del: "deleteItem p fs =
      (if isCurrent (lookup fs p) then changeCurrentFileToTheLastTab fs3 else (Returned (), fs3))"
    by (simp add: deleteItem_def Let_def fs1_def parent_def fs2_def fs3_def isCurrent_def)
  have keys1: "map fst fs1 = rest" by (simp add: fs1_def rest_def keys_filter)
  have keys2: "map fst fs2 = kept"
    using keys1 by (simp add: fs2_def kept_def update_keys)
  have len2: "length fs2 = length kept" using keys2 by (metis length_map)
  have one: "fs2 = [(parent, Item emptyItem)]" if "length kept = 1"
    using that len2 update_length_one [of parent "Item emptyItem" fs1] by (simp add: fs2_def)
  have fs3_one: "fs3 = [(parent, Item emptyItem), (parent @ ''src/'', Item emptyItem)]"
    if "length kept = 1"
    using one [OF that] by (simp add: fs3_def)
  have keys3: "map fst fs3 = (if length kept = 1 then kept @ [parent @ ''src/''] else kept)"
  proof (cases "length kept = 1")
    case True
    then have "kept = [parent]" using one [OF True] keys2 by simp
    then show ?thesis using fs3_one [OF True] True by simp
  next
    case False
    then show ?thesis using keys2 len2 by (simp add: fs3_def)
  qed
  have keys: "map fst (snd (deleteItem p fs)) = map fst fs3"
    by (simp add: del keys_changeCurrentFileToTheLastTab)
  have c1: "getItemTypeFromPath parent = IsFolder"
    by (simp add: parent_def parentPath_is_folder)
  have k2: "parent \<in> fst ` set fs2" by (simp add: fs2_def dom_update)
  then have k3: "parent \<in> fst ` set fs3" by (simp add: fs3_def dom_update)
  have "fst ` set (snd (deleteItem p fs)) = fst ` set fs3"
    using keys by (metis set_map)
  then have c2: "parent \<in> fst ` set (snd (deleteItem p fs))" using k3 by simp
  have "fs2 \<noteq> []" by (simp add: fs2_def)
  then have "1 \<le> length fs2" by (cases fs2) auto
  then have "2 \<le> length fs3"
    using k2 by (auto simp: fs3_def update_length_two)
  moreover have "length (snd (deleteItem p fs)) = length fs3"
    using keys by (metis length_map)
  ultimately have c3: "2 \<le> length (snd (deleteItem p fs))" by simp
  have c4: "map fst (snd (deleteItem p fs))
           = (if length kept = 1 then kept @ [parent @ ''src/''] else kept)"
    using keys keys3 by simp
  have c5: "deleteItem p fs
              = (Returned (), [(parent, Item emptyItem), (parent @ ''src/'', Item emptyItem)])"
    if "length kept = 1"
  proof -
    have "tabsOf fs3 = Returned []"
      using fs3_one [OF that] by (simp add: emptyItem_def)
    then have "changeCurrentFileToTheLastTab fs3 = (Returned (), fs3)"
      by (rule toLastTab_no_tabs)
    then show ?thesis using del fs3_one [OF that] by simp
  qed
  have c6: "lookup (snd (deleteItem p fs)) parent = Item emptyItem" if d: "distinct (map fst fs)"
  proof -
    have "distinct (map fst fs1)" using d by (simp add: fs1_def distinct_map_filter)
    then have "distinct (map fst fs2)" by (simp add: fs2_def distinct_update)
    then have d3: "distinct (map fst fs3)" by (simp add: fs3_def distinct_update)
    have l3: "lookup fs3 parent = Item emptyItem"
      by (simp add: fs3_def fs2_def lookup_update)
    have "lookup (snd (changeCurrentFileToTheLastTab fs3)) parent = Item emptyItem"
      by (rule toLastTab_keeps_plain [OF d3 l3]) (simp_all add: emptyItem_def)
    then show ?thesis using l3 by (simp add: del)
  qed
  show ?thesis
    unfolding Let_def parent_def [symmetric] rest_def [symmetric] kept_def [symmetric]
    using c1 c2 c3 c4 c5 c6 by blast
qed

text \<open>The theorem at the map with the one file \<open>/src/lib.rs\<close>, current and open in a
  tab, and that path: the folder \<open>/src/\<close> comes back and \<open>/src/src/\<close> is added.\<close>

theorem deleteItem_keeps_folder_witness:
  "distinct (map fst
     [(''/src/lib.rs'', Item \<lparr>content = Some ''x'', current = Some True, tabs = Some True\<rparr>)])
   \<and> length (filter (\<lambda>k. \<not> prefix ''/src/lib.rs'' k) (map fst
        [(''/src/lib.rs'', Item \<lparr>content = Some ''x'', current = Some True, tabs = Some True\<rparr>)])
        @ [getParentPathFromPath ''/src/lib.rs'']) = 1
   \<and> deleteItem ''/src/lib.rs''
       [(''/src/lib.rs'', Item \<lparr>content = Some ''x'', current = Some True, tabs = Some True\<rparr>)]
     = (Returned (), [(''/src/'', Item emptyItem), (''/src/src/'', Item emptyItem)])
   \<and> map fst (snd (deleteItem ''/src/lib.rs''
       [(''/src/lib.rs'', Item \<lparr>content = Some ''x'', current = Some True, tabs = Some True\<rparr>)]))
     = [''/src/'', ''/src/src/'']
   \<and> lookup (snd (deleteItem ''/src/lib.rs''
       [(''/src/lib.rs'', Item \<lparr>content = Some ''x'', current = Some True, tabs = Some True\<rparr>)])) ''/src/''
     = Item emptyItem"
proof -
  have p: "getParentPathFromPath ''/src/lib.rs'' = ''/src/''" by code_simp
  show ?thesis
    using deleteItem_keeps_folder [of "''/src/lib.rs''"
      "[(''/src/lib.rs'', Item \<lparr>content = Some ''x'', current = Some True, tabs = Some True\<rparr>)]"]
    by (simp add: p Let_def lookup_def)
qed

subsubsection \<open>saveFile\<close>

lemma saveFile_invariants:
  assumes wf: "wellFormed fs"
  shows "wellFormed (snd (saveFile p c fs))
       \<and> (atMostOneCurrent fs \<longrightarrow> atMostOneCurrent (snd (saveFile p c fs)))
       \<and> (currentInTabs fs \<longrightarrow> currentInTabs (snd (saveFile p c fs)))"
proof (cases "lookup fs p")
  case Undefined
  then show ?thesis using wf by (simp add: saveFile_def)
next
  case (Item i)
  from wf have d: "distinct (map fst fs)" and nu: "noUndefined fs"
    by (simp_all add: wellFormed_def)
  define fs' where "fs' = AList.update p (Item (i\<lparr>content := Some c\<rparr>)) fs"
  have r: "snd (saveFile p c fs) = fs'" using Item by (simp add: saveFile_def fs'_def)
  have d': "distinct (map fst fs')" using d by (simp add: fs'_def distinct_update)
  have nu': "noUndefined fs'" using nu by (simp add: fs'_def noUndefined_update)
  have cur: "\<And>k. isCurrent (lookup fs' k) = isCurrent (lookup fs k)"
    using Item by (simp add: fs'_def lookup_update isCurrent_def)
  have tab: "\<And>k. isTab (lookup fs' k) = isTab (lookup fs k)"
    using Item by (simp add: fs'_def lookup_update isTab_def)
  show ?thesis
    unfolding r atMostOneCurrent_iff [OF d] atMostOneCurrent_iff [OF d']
      currentInTabs_iff [OF d] currentInTabs_iff [OF d']
    using d' nu' by (simp add: wellFormed_def cur tab)
qed

subsubsection \<open>removeFromTabs\<close>

lemma removeFromTabs_invariants:
  assumes wf: "wellFormed fs" and one: "atMostOneCurrent fs"
  shows "wellFormed (snd (removeFromTabs p fs))
       \<and> atMostOneCurrent (snd (removeFromTabs p fs))
       \<and> (currentInTabs fs \<and> (isCurrent (lookup fs p) \<longrightarrow> otherTab p fs)
            \<longrightarrow> currentInTabs (snd (removeFromTabs p fs)))"
proof (cases "lookup fs p")
  case Undefined
  then show ?thesis using wf one by (simp add: removeFromTabs_def assign_None)
next
  case (Item i)
  from wf have d: "distinct (map fst fs)" and nu: "noUndefined fs"
    by (simp_all add: wellFormed_def)
  define fs1 where "fs1 = AList.update p (Item (i\<lparr>tabs := Some False\<rparr>)) fs"
  have r: "removeFromTabs p fs = changeCurrentFileToTheLastTab fs1"
    using Item by (simp add: removeFromTabs_def assign_Some fs1_def)
  have d1: "distinct (map fst fs1)" using d by (simp add: fs1_def distinct_update)
  have nu1: "noUndefined fs1" using nu by (simp add: fs1_def noUndefined_update)
  have wf1: "wellFormed fs1" using d1 nu1 by (simp add: wellFormed_def)
  have cur: "\<And>k. isCurrent (lookup fs1 k) = isCurrent (lookup fs k)"
    using Item by (simp add: fs1_def lookup_update isCurrent_def)
  have tab: "\<And>k. isTab (lookup fs1 k) = (k \<noteq> p \<and> isTab (lookup fs k))"
    using Item by (auto simp: fs1_def lookup_update isTab_def)
  have one1: "atMostOneCurrent fs1"
    using one unfolding atMostOneCurrent_iff [OF d] atMostOneCurrent_iff [OF d1]
    by (simp add: cur)
  have "currentInTabs (snd (changeCurrentFileToTheLastTab fs1))"
    if ct: "currentInTabs fs" and pre: "isCurrent (lookup fs p) \<longrightarrow> otherTab p fs"
  proof -
    obtain ts where ts: "tabsOf fs1 = Returned ts" using tabsOf_Returned [OF nu1] by blast
    show ?thesis
    proof (cases "ts = []")
      case False
      then show ?thesis using currentInTabs_toLastTab [OF wf1 one1 ts] by simp
    next
      case True
      have none: "\<not> isTab (lookup fs1 k)" for k
      proof
        assume "isTab (lookup fs1 k)"
        moreover have "map path ts = filter (\<lambda>k. isTab (lookup fs1 k)) (map fst fs1)"
          using ts d1 by (simp add: tabsOf_paths filter_by_lookup)
        moreover have "k \<in> fst ` set fs1"
          using calculation(1) isTab_Undefined lookup_absent by fastforce
        ultimately have "k \<in> set (map path ts)" by simp
        with True show False by simp
      qed
      have notcur: "\<not> isCurrent (lookup fs p)"
      proof
        assume "isCurrent (lookup fs p)"
        with pre have "otherTab p fs" by simp
        then obtain q e where qe: "(q, e) \<in> set fs" "q \<noteq> p" "isTab e"
          by (auto simp: otherTab_def list_ex_iff)
        then have "lookup fs q = e" using d by (simp add: lookup_def)
        then have "isTab (lookup fs1 q)" using qe by (simp add: tab)
        with none show False by simp
      qed
      have "currentInTabs fs1"
        unfolding currentInTabs_iff [OF d1]
        using ct notcur unfolding currentInTabs_iff [OF d]
        by (metis cur tab)
      then show ?thesis using True ts by (simp add: toLastTab_no_tabs)
    qed
  qed
  then show ?thesis
    unfolding r
    using wellFormed_toLastTab [OF wf1] atMostOneCurrent_toLastTab [OF wf1 one1] by blast
qed

subsubsection \<open>Entries that leave, arrive or move\<close>

lemma lookup_filter_keys:
  "lookup (filter (\<lambda>(k, e). P k) fs) q = (if P q then lookup fs q else Undefined)"
  by (induction fs) (auto simp: lookup_Cons lookup_Nil)

lemma invariants_by_flags:
  assumes d: "distinct (map fst fs)" and d': "distinct (map fst fs')"
    and sub: "\<And>k. isCurrent (lookup fs' k) \<Longrightarrow> isCurrent (lookup fs k) \<and> (isTab (lookup fs k) \<longrightarrow> isTab (lookup fs' k))"
  shows "(atMostOneCurrent fs \<longrightarrow> atMostOneCurrent fs')
       \<and> (currentInTabs fs \<longrightarrow> currentInTabs fs')"
  unfolding atMostOneCurrent_iff [OF d] atMostOneCurrent_iff [OF d']
    currentInTabs_iff [OF d] currentInTabs_iff [OF d']
  using sub by blast

lemma filter_invariants:
  assumes wf: "wellFormed fs"
  shows "wellFormed (filter (\<lambda>(k, e). P k) fs)
       \<and> (atMostOneCurrent fs \<longrightarrow> atMostOneCurrent (filter (\<lambda>(k, e). P k) fs))
       \<and> (currentInTabs fs \<longrightarrow> currentInTabs (filter (\<lambda>(k, e). P k) fs))"
proof -
  from wf have d: "distinct (map fst fs)" and nu: "noUndefined fs"
    by (simp_all add: wellFormed_def)
  have d': "distinct (map fst (filter (\<lambda>(k, e). P k) fs))"
    using d by (simp add: distinct_map_filter)
  have "isCurrent (lookup fs k) \<and> (isTab (lookup fs k) \<longrightarrow> isTab (lookup (filter (\<lambda>(k, e). P k) fs) k))"
    if "isCurrent (lookup (filter (\<lambda>(k, e). P k) fs) k)" for k
    using that by (simp add: lookup_filter_keys isCurrent_Undefined split: if_splits)
  then show ?thesis
    using invariants_by_flags [OF d d'] d' noUndefined_filter [OF nu]
    by (simp add: wellFormed_def)
qed

lemma put_folder_invariants:
  assumes wf: "wellFormed fs"
  shows "wellFormed (AList.update q (Item emptyItem) fs)
       \<and> (atMostOneCurrent fs \<longrightarrow> atMostOneCurrent (AList.update q (Item emptyItem) fs))
       \<and> (currentInTabs fs \<longrightarrow> currentInTabs (AList.update q (Item emptyItem) fs))"
proof -
  from wf have d: "distinct (map fst fs)" and nu: "noUndefined fs"
    by (simp_all add: wellFormed_def)
  have d': "distinct (map fst (AList.update q (Item emptyItem) fs))"
    using d by (simp add: distinct_update)
  have nc: "\<not> isCurrent (Item emptyItem)" by (simp add: isCurrent_def emptyItem_def)
  have "isCurrent (lookup fs k) \<and> (isTab (lookup fs k) \<longrightarrow> isTab (lookup (AList.update q (Item emptyItem) fs) k))"
    if "isCurrent (lookup (AList.update q (Item emptyItem) fs) k)" for k
    using that nc by (simp add: lookup_update split: if_splits)
  then show ?thesis
    using invariants_by_flags [OF d d'] d' noUndefined_update [OF nu]
    by (simp add: wellFormed_def)
qed

lemma move_invariants:
  assumes wf: "wellFormed fs" and p: "p \<in> fst ` set fs" and q: "lookup fs q = Undefined"
  shows "wellFormed (AList.update q (lookup fs p) (AList.delete p fs))
       \<and> (atMostOneCurrent fs \<longrightarrow> atMostOneCurrent (AList.update q (lookup fs p) (AList.delete p fs)))
       \<and> (currentInTabs fs \<longrightarrow> currentInTabs (AList.update q (lookup fs p) (AList.delete p fs)))"
proof -
  from wf have d: "distinct (map fst fs)" and nu: "noUndefined fs"
    by (simp_all add: wellFormed_def)
  define fs' where "fs' = AList.update q (lookup fs p) (AList.delete p fs)"
  have pv: "lookup fs p \<noteq> Undefined" using lookup_key_not_Undefined [OF nu p] .
  then have pq: "p \<noteq> q" using q by auto
  have d': "distinct (map fst fs')"
    using d by (simp add: fs'_def distinct_update distinct_delete)
  have nu': "noUndefined fs'"
    using nu pv by (simp add: fs'_def noUndefined_update noUndefined_delete)
  have l: "\<And>k. lookup fs' k = (if k = q then lookup fs p else if k = p then Undefined else lookup fs k)"
    by (simp add: fs'_def lookup_update lookup_delete)
  have one: "atMostOneCurrent fs'" if "atMostOneCurrent fs"
  proof -
    have U: "\<And>k k'. isCurrent (lookup fs k) \<Longrightarrow> isCurrent (lookup fs k') \<Longrightarrow> k = k'"
      using that atMostOneCurrent_iff [OF d] by blast
    have origin: "isCurrent (lookup fs (if k = q then p else k)) \<and> k \<noteq> p"
      if "isCurrent (lookup fs' k)" for k
      using that pq by (auto simp: l isCurrent_Undefined split: if_splits)
    show ?thesis
      unfolding atMostOneCurrent_iff [OF d']
    proof (intro allI impI)
      fix k k'
      assume a: "isCurrent (lookup fs' k) \<and> isCurrent (lookup fs' k')"
      then have "(if k = q then p else k) = (if k' = q then p else k')"
        using origin U by blast
      moreover have "k \<noteq> p" "k' \<noteq> p" using a origin by blast+
      ultimately show "k = k'" by (auto split: if_splits)
    qed
  qed
  have tabs: "currentInTabs fs'" if "currentInTabs fs"
    using that unfolding currentInTabs_iff [OF d] currentInTabs_iff [OF d']
    by (auto simp: l isCurrent_Undefined split: if_splits)
  show ?thesis
    using d' nu' one tabs by (simp add: wellFormed_def fs'_def)
qed

subsubsection \<open>deleteItem\<close>

lemma deleteItem_invariants:
  assumes wf: "wellFormed fs" and one: "atMostOneCurrent fs"
  shows "wellFormed (snd (deleteItem p fs))
       \<and> atMostOneCurrent (snd (deleteItem p fs))
       \<and> (currentInTabs fs \<longrightarrow> currentInTabs (snd (deleteItem p fs)))"
proof -
  define fs1 where "fs1 = filter (\<lambda>(q, e). \<not> prefix p q) fs"
  define parent where "parent = getParentPathFromPath p"
  define fs2 where "fs2 = AList.update parent (Item emptyItem) fs1"
  define fs3 where "fs3 = (if length fs2 = 1
      then AList.update (parent @ ''src/'') (Item emptyItem) fs2 else fs2)"
  have i1: "wellFormed fs1 \<and> atMostOneCurrent fs1 \<and> (currentInTabs fs \<longrightarrow> currentInTabs fs1)"
    using filter_invariants [OF wf, of "\<lambda>q. \<not> prefix p q"] one by (simp add: fs1_def)
  then have i2: "wellFormed fs2 \<and> atMostOneCurrent fs2 \<and> (currentInTabs fs \<longrightarrow> currentInTabs fs2)"
    using put_folder_invariants [of fs1 parent] by (simp add: fs2_def)
  then have i3: "wellFormed fs3 \<and> atMostOneCurrent fs3 \<and> (currentInTabs fs \<longrightarrow> currentInTabs fs3)"
    using put_folder_invariants [of fs2 "parent @ ''src/''"] by (simp add: fs3_def)
  have r: "snd (deleteItem p fs) = fs3 \<or> snd (deleteItem p fs) = snd (changeCurrentFileToTheLastTab fs3)"
    by (simp add: deleteItem_def Let_def fs1_def parent_def fs2_def fs3_def)
  show ?thesis
    using r i3 wellFormed_toLastTab [of fs3] atMostOneCurrent_toLastTab [of fs3]
      currentInTabs_toLastTab_keep [of fs3]
    by auto
qed

subsubsection \<open>renameItem\<close>

lemma renameFolder_invariants:
  "wellFormed fs \<Longrightarrow>
   wellFormed (snd (renameFolder fullPath newName ps fs))
   \<and> (atMostOneCurrent fs \<longrightarrow> atMostOneCurrent (snd (renameFolder fullPath newName ps fs)))
   \<and> (currentInTabs fs \<longrightarrow> currentInTabs (snd (renameFolder fullPath newName ps fs)))"
proof (induction ps arbitrary: fs)
  case Nil
  then show ?case by simp
next
  case (Cons p ps)
  show ?case
  proof (cases "p \<in> fst ` set fs")
    case False
    then show ?thesis using Cons by simp
  next
    case True
    define q where "q = renamedPath fullPath newName p"
    show ?thesis
    proof (cases "lookup fs q = Undefined")
      case False
      then show ?thesis using True Cons.prems by (simp add: q_def Let_def)
    next
      case Undef: True
      define fs' where "fs' = AList.update q (lookup fs p) (AList.delete p fs)"
      have m: "wellFormed fs' \<and> (atMostOneCurrent fs \<longrightarrow> atMostOneCurrent fs')
          \<and> (currentInTabs fs \<longrightarrow> currentInTabs fs')"
        using move_invariants [OF Cons.prems True Undef] by (simp add: fs'_def)
      have r: "renameFolder fullPath newName (p # ps) fs = renameFolder fullPath newName ps fs'"
        using True Undef by (simp add: q_def fs'_def Let_def)
      show ?thesis
        unfolding r using Cons.IH [of fs'] m by blast
    qed
  qed
qed

lemma renameItem_invariants:
  assumes wf: "wellFormed fs"
    and adm: "getItemTypeFromPath p = IsFile \<longrightarrow> p \<in> fst ` set fs"
  shows "wellFormed (snd (renameItem p n fs))
       \<and> (atMostOneCurrent fs \<longrightarrow> atMostOneCurrent (snd (renameItem p n fs)))
       \<and> (currentInTabs fs \<longrightarrow> currentInTabs (snd (renameItem p n fs)))"
proof (cases "isItemNameValid n")
  case False
  then show ?thesis using wf by (simp add: renameItem_def)
next
  case valid: True
  show ?thesis
  proof (cases "getItemTypeFromPath p")
    case IsFolder
    then show ?thesis
      using valid renameFolder_invariants [OF wf] by (simp add: renameItem_def)
  next
    case IsFile
    define q where "q = getParentPathFromPath p @ n"
    show ?thesis
    proof (cases "lookup fs q = Undefined")
      case False
      then show ?thesis using valid IsFile wf by (simp add: renameItem_def Let_def q_def)
    next
      case True
      have "p \<in> fst ` set fs" using adm IsFile by simp
      then show ?thesis
        using valid IsFile True move_invariants [OF wf _ True, of p]
        by (simp add: renameItem_def Let_def q_def)
    qed
  qed
qed

subsubsection \<open>newItem\<close>

lemma newItem_cases:
  "snd (newItem p fs) = fs
   \<or> snd (newItem p fs) = AList.update p (Item emptyItem) fs
   \<or> (lookup fs p = Undefined
      \<and> snd (newItem p fs) =
          snd (changeCurrentFile p
                 (AList.update p (Item \<lparr>content = Some [], current = Some True, tabs = Some True\<rparr>) fs)))"
  by (simp add: newItem_def split: option.splits ItemType.splits prod.splits outcome.splits)

lemma newItem_invariants:
  assumes wf: "wellFormed fs" and one: "atMostOneCurrent fs"
  shows "wellFormed (snd (newItem p fs))
       \<and> atMostOneCurrent (snd (newItem p fs))
       \<and> (currentInTabs fs \<longrightarrow> currentInTabs (snd (newItem p fs)))"
proof -
  from wf have d: "distinct (map fst fs)" and nu: "noUndefined fs"
    by (simp_all add: wellFormed_def)
  define new where "new = \<lparr>content = Some [], current = Some True, tabs = Some True\<rparr>"
  define fs0 where "fs0 = AList.update p (Item new) fs"
  consider (same) "snd (newItem p fs) = fs"
    | (folder) "snd (newItem p fs) = AList.update p (Item emptyItem) fs"
    | (created) "lookup fs p = Undefined" "snd (newItem p fs) = snd (changeCurrentFile p fs0)"
    using newItem_cases [of p fs] unfolding fs0_def new_def by blast
  then show ?thesis
  proof cases
    case same
    then show ?thesis using wf one by simp
  next
    case folder
    then show ?thesis using put_folder_invariants [OF wf, of p] one by simp
  next
    case created
    have np: "p \<notin> fst ` set fs" using lookup_Undefined_absent [OF nu created(1)] .
    have app: "fs0 = fs @ [(p, Item new)]" using np by (simp add: fs0_def update_absent)
    have d0: "distinct (map fst fs0)" using d by (simp add: fs0_def distinct_update)
    have nu0: "noUndefined fs0" using nu by (simp add: fs0_def noUndefined_update)
    have wf0: "wellFormed fs0" using d0 nu0 by (simp add: wellFormed_def)
    have l0: "\<And>k. lookup fs0 k = (if k = p then Item new else lookup fs k)"
      by (simp add: fs0_def lookup_update)
    obtain cur0 where cur0: "currentOf fs0 = Returned cur0"
      using currentOf_Returned [OF nu0] by blast
    obtain cur where cur: "currentOf fs = Returned cur"
      using currentOf_Returned [OF nu] by blast
    have U: "\<And>k k'. isCurrent (lookup fs k) \<Longrightarrow> isCurrent (lookup fs k') \<Longrightarrow> k = k'"
      using one atMostOneCurrent_iff [OF d] by blast
    have found: "Some k = map_option path cur0" if "isCurrent (lookup fs0 k)" "k \<noteq> p" for k
    proof -
      from that have c: "isCurrent (lookup fs k)" by (simp add: l0)
      show ?thesis
      proof (cases cur)
        case None
        then show ?thesis using currentOf_None [of fs k] cur c by simp
      next
        case (Some f)
        then have "isCurrent (lookup fs (path f))" using currentOf_Some [OF d] cur by simp
        then have k: "k = path f" using U c by blast
        have "currentOf fs0 = Returned (Some f)"
          using cur Some by (simp add: app currentOf_append_Some)
        then show ?thesis using cur0 k by simp
      qed
    qed
    have tab0: "isTab (lookup fs0 p)" by (simp add: l0 isTab_def new_def)
    have only: "k = p \<and> isTab (lookup (snd (changeCurrentFile p fs0)) p)"
      if "isCurrent (lookup (snd (changeCurrentFile p fs0)) k)" for k
      using changeCurrentFile_flags [OF d0 nu0 cur0, of p] that found tab0 by blast
    have d': "distinct (map fst (snd (changeCurrentFile p fs0)))"
      using d0 by (simp add: keys_changeCurrentFile)
    have "atMostOneCurrent (snd (changeCurrentFile p fs0))"
      unfolding atMostOneCurrent_iff [OF d'] using only by blast
    moreover have "currentInTabs (snd (changeCurrentFile p fs0))"
      unfolding currentInTabs_iff [OF d'] using only by blast
    ultimately show ?thesis
      using created(2) wellFormed_changeCurrentFile [OF wf0, of p] by simp
  qed
qed

subsection \<open>The invariants along a sequence of calls\<close>

lemma after_invariants:
  assumes wf: "wellFormed fs" and one: "atMostOneCurrent fs" and adm: "admissible c fs"
  shows "wellFormed (after c fs) \<and> atMostOneCurrent (after c fs)"
proof (cases c)
  case (NewItem p)
  then show ?thesis using newItem_invariants [OF wf one] by simp
next
  case (DeleteItem p)
  then show ?thesis using deleteItem_invariants [OF wf one] by simp
next
  case (RenameItem p n)
  then show ?thesis using renameItem_invariants [OF wf, of p n] adm one by simp
next
  case (SaveFile p s)
  then show ?thesis using saveFile_invariants [OF wf, of p s] one by simp
next
  case (ChangeCurrentFile p)
  then show ?thesis
    using wellFormed_changeCurrentFile [OF wf] atMostOneCurrent_changeCurrentFile [OF wf one]
    by simp
next
  case (RemoveFromTabs p)
  then show ?thesis using removeFromTabs_invariants [OF wf one] by simp
qed

lemma tabAdmissible_admissible: "tabAdmissible c fs \<Longrightarrow> admissible c fs"
  by (cases c) simp_all

lemma after_current_in_tabs:
  assumes wf: "wellFormed fs" and one: "atMostOneCurrent fs" and ct: "currentInTabs fs"
    and adm: "tabAdmissible c fs"
  shows "currentInTabs (after c fs)"
proof (cases c)
  case (NewItem p)
  then show ?thesis using newItem_invariants [OF wf one] ct by simp
next
  case (DeleteItem p)
  then show ?thesis using deleteItem_invariants [OF wf one] ct by simp
next
  case (RenameItem p n)
  then show ?thesis using renameItem_invariants [OF wf, of p n] adm ct by simp
next
  case (SaveFile p s)
  then show ?thesis using saveFile_invariants [OF wf, of p s] ct by simp
next
  case (ChangeCurrentFile p)
  then show ?thesis
    using currentInTabs_changeCurrentFile [OF wf one, of p] adm by (simp add: absolutePath_def)
next
  case (RemoveFromTabs p)
  then show ?thesis using removeFromTabs_invariants [OF wf one, of p] ct adm by simp
qed

text \<open>
  C3, as the code has it. From a map the constructor can load (each key once, every value
  an item) in which at most one entry is current, every sequence of calls of \<open>newItem\<close>,
  \<open>deleteItem\<close>, \<open>renameItem\<close>, \<open>saveFile\<close>, \<open>changeCurrentFile\<close> and
  \<open>removeFromTabs\<close> leaves at most one entry current, whether the calls return or throw,
  provided every path passed is absolute and each file that is renamed is a key of the
  map when it is renamed.
\<close>

theorem run_at_most_one_current:
  "wellFormed fs \<Longrightarrow> atMostOneCurrent fs \<Longrightarrow> admissibleRun cs fs \<Longrightarrow>
   atMostOneCurrent (run cs fs)"
proof (induction cs arbitrary: fs)
  case Nil
  then show ?case by simp
next
  case (Cons c cs)
  from Cons.prems have adm: "admissible c fs" and rest: "admissibleRun cs (after c fs)"
    by simp_all
  have "wellFormed (after c fs) \<and> atMostOneCurrent (after c fs)"
    using after_invariants [OF Cons.prems(1,2) adm] .
  then show ?case using Cons.IH rest by simp
qed

text \<open>The theorem at the default kind of project, one current file, and a sequence
  with each of the six calls.\<close>

theorem run_at_most_one_current_witness:
  "wellFormed [(''/src/lib.rs'', Item \<lparr>content = Some ''x'', current = Some True, tabs = Some True\<rparr>)]
   \<and> atMostOneCurrent [(''/src/lib.rs'', Item \<lparr>content = Some ''x'', current = Some True, tabs = Some True\<rparr>)]
   \<and> admissibleRun
        [NewItem ''/src/a.rs'', RenameItem ''/src/lib.rs'' ''main.rs'', ChangeCurrentFile ''/src/main.rs'',
         RemoveFromTabs ''/src/a.rs'', SaveFile ''/src/main.rs'' ''y'', DeleteItem ''/src/a.rs'']
        [(''/src/lib.rs'', Item \<lparr>content = Some ''x'', current = Some True, tabs = Some True\<rparr>)]
   \<and> atMostOneCurrent
        (run
          [NewItem ''/src/a.rs'', RenameItem ''/src/lib.rs'' ''main.rs'', ChangeCurrentFile ''/src/main.rs'',
           RemoveFromTabs ''/src/a.rs'', SaveFile ''/src/main.rs'' ''y'', DeleteItem ''/src/a.rs'']
          [(''/src/lib.rs'', Item \<lparr>content = Some ''x'', current = Some True, tabs = Some True\<rparr>)])"
proof -
  have h1: "wellFormed [(''/src/lib.rs'', Item \<lparr>content = Some ''x'', current = Some True, tabs = Some True\<rparr>)]"
    by code_simp
  have h2: "atMostOneCurrent [(''/src/lib.rs'', Item \<lparr>content = Some ''x'', current = Some True, tabs = Some True\<rparr>)]"
    by code_simp
  have h3: "admissibleRun
        [NewItem ''/src/a.rs'', RenameItem ''/src/lib.rs'' ''main.rs'', ChangeCurrentFile ''/src/main.rs'',
         RemoveFromTabs ''/src/a.rs'', SaveFile ''/src/main.rs'' ''y'', DeleteItem ''/src/a.rs'']
        [(''/src/lib.rs'', Item \<lparr>content = Some ''x'', current = Some True, tabs = Some True\<rparr>)]"
    by code_simp
  show ?thesis
    using run_at_most_one_current [OF h1 h2 h3] h1 h2 h3 by blast
qed

text \<open>
  C3 as stated fails. Renaming the file \<open>/q.rs\<close>, which is not a key, stores
  \<open>undefined\<close> under \<open>/y.rs\<close>; renaming \<open>/x.rs\<close> moves the current file behind that
  key; \<open>newItem\<close> then writes the new file in place, before the current file, so
  \<open>getCurrentFile\<close> finds the new file itself and the flag of \<open>/z.rs\<close> is never
  cleared. Two entries are current.
\<close>

theorem run_at_most_one_current_counterexample:
  "wellFormed [(''/x.rs'', Item \<lparr>content = Some ''x'', current = Some True, tabs = Some True\<rparr>)]
   \<and> atMostOneCurrent [(''/x.rs'', Item \<lparr>content = Some ''x'', current = Some True, tabs = Some True\<rparr>)]
   \<and> run [RenameItem ''/q.rs'' ''y.rs'', RenameItem ''/x.rs'' ''z.rs'', NewItem ''/y.rs'']
         [(''/x.rs'', Item \<lparr>content = Some ''x'', current = Some True, tabs = Some True\<rparr>)]
       = [(''/y.rs'', Item \<lparr>content = Some [], current = Some True, tabs = Some True\<rparr>),
          (''/z.rs'', Item \<lparr>content = Some ''x'', current = Some True, tabs = Some True\<rparr>)]
   \<and> \<not> atMostOneCurrent
         [(''/y.rs'', Item \<lparr>content = Some [], current = Some True, tabs = Some True\<rparr>),
          (''/z.rs'', Item \<lparr>content = Some ''x'', current = Some True, tabs = Some True\<rparr>)]"
  by code_simp

text \<open>
  C4, as the code has it. From a map the constructor can load in which at most one entry
  is current and every current entry is a tab, every sequence of the six calls leaves
  every current entry among the tabs, provided every path passed is absolute, each file
  that is renamed is a key, and the tab of the current file is closed only while another
  tab is open.
\<close>

theorem run_current_in_tabs:
  "wellFormed fs \<Longrightarrow> atMostOneCurrent fs \<Longrightarrow> currentInTabs fs \<Longrightarrow> tabAdmissibleRun cs fs \<Longrightarrow>
   currentInTabs (run cs fs)"
proof (induction cs arbitrary: fs)
  case Nil
  then show ?case by simp
next
  case (Cons c cs)
  from Cons.prems have adm: "tabAdmissible c fs" and rest: "tabAdmissibleRun cs (after c fs)"
    by simp_all
  have "wellFormed (after c fs) \<and> atMostOneCurrent (after c fs)"
    using after_invariants [OF Cons.prems(1,2) tabAdmissible_admissible [OF adm]] .
  moreover have "currentInTabs (after c fs)"
    using after_current_in_tabs [OF Cons.prems(1,2,3) adm] .
  ultimately show ?case using Cons.IH rest by simp
qed

text \<open>The theorem at a map with two tabs, the first current, and a sequence with
  each of the six calls; the first call closes the tab of the current file while the
  other tab is open.\<close>

theorem run_current_in_tabs_witness:
  "wellFormed
     [(''/a.rs'', Item \<lparr>content = Some ''x'', current = Some True, tabs = Some True\<rparr>),
      (''/b.rs'', Item \<lparr>content = Some ''y'', current = None, tabs = Some True\<rparr>)]
   \<and> atMostOneCurrent
     [(''/a.rs'', Item \<lparr>content = Some ''x'', current = Some True, tabs = Some True\<rparr>),
      (''/b.rs'', Item \<lparr>content = Some ''y'', current = None, tabs = Some True\<rparr>)]
   \<and> currentInTabs
     [(''/a.rs'', Item \<lparr>content = Some ''x'', current = Some True, tabs = Some True\<rparr>),
      (''/b.rs'', Item \<lparr>content = Some ''y'', current = None, tabs = Some True\<rparr>)]
   \<and> tabAdmissibleRun
        [RemoveFromTabs ''/a.rs'', NewItem ''/c.rs'', ChangeCurrentFile ''/a.rs'',
         RenameItem ''/b.rs'' ''d.rs'', DeleteItem ''/a.rs'', SaveFile ''/c.rs'' ''z'']
        [(''/a.rs'', Item \<lparr>content = Some ''x'', current = Some True, tabs = Some True\<rparr>),
         (''/b.rs'', Item \<lparr>content = Some ''y'', current = None, tabs = Some True\<rparr>)]
   \<and> currentInTabs
        (run
          [RemoveFromTabs ''/a.rs'', NewItem ''/c.rs'', ChangeCurrentFile ''/a.rs'',
           RenameItem ''/b.rs'' ''d.rs'', DeleteItem ''/a.rs'', SaveFile ''/c.rs'' ''z'']
          [(''/a.rs'', Item \<lparr>content = Some ''x'', current = Some True, tabs = Some True\<rparr>),
           (''/b.rs'', Item \<lparr>content = Some ''y'', current = None, tabs = Some True\<rparr>)])"
proof -
  have h1: "wellFormed
     [(''/a.rs'', Item \<lparr>content = Some ''x'', current = Some True, tabs = Some True\<rparr>),
      (''/b.rs'', Item \<lparr>content = Some ''y'', current = None, tabs = Some True\<rparr>)]"
    by code_simp
  have h2: "atMostOneCurrent
     [(''/a.rs'', Item \<lparr>content = Some ''x'', current = Some True, tabs = Some True\<rparr>),
      (''/b.rs'', Item \<lparr>content = Some ''y'', current = None, tabs = Some True\<rparr>)]"
    by code_simp
  have h3: "currentInTabs
     [(''/a.rs'', Item \<lparr>content = Some ''x'', current = Some True, tabs = Some True\<rparr>),
      (''/b.rs'', Item \<lparr>content = Some ''y'', current = None, tabs = Some True\<rparr>)]"
    by code_simp
  have h4: "tabAdmissibleRun
        [RemoveFromTabs ''/a.rs'', NewItem ''/c.rs'', ChangeCurrentFile ''/a.rs'',
         RenameItem ''/b.rs'' ''d.rs'', DeleteItem ''/a.rs'', SaveFile ''/c.rs'' ''z'']
        [(''/a.rs'', Item \<lparr>content = Some ''x'', current = Some True, tabs = Some True\<rparr>),
         (''/b.rs'', Item \<lparr>content = Some ''y'', current = None, tabs = Some True\<rparr>)]"
    by code_simp
  show ?thesis
    using run_current_in_tabs [OF h1 h2 h3 h4] h1 h2 h3 h4 by blast
qed

text \<open>
  C4 as stated fails. Closing the only tab, which is the current file, clears its
  \<open>tabs\<close> flag and finds no tab to move to, so the file stays current and is no
  tab. And after a file that is not a key has been renamed, the map holds an
  \<open>undefined\<close> value: \<open>changeCurrentFile\<close> sets the \<open>current\<close> flag of \<open>/w.rs\<close>
  and then throws in \<open>getTabs\<close>, before it sets the \<open>tabs\<close> flag.
\<close>

theorem run_current_in_tabs_counterexample:
  "wellFormed [(''/a.rs'', Item \<lparr>content = Some ''x'', current = Some True, tabs = Some True\<rparr>)]
   \<and> atMostOneCurrent [(''/a.rs'', Item \<lparr>content = Some ''x'', current = Some True, tabs = Some True\<rparr>)]
   \<and> currentInTabs [(''/a.rs'', Item \<lparr>content = Some ''x'', current = Some True, tabs = Some True\<rparr>)]
   \<and> removeFromTabs ''/a.rs''
         [(''/a.rs'', Item \<lparr>content = Some ''x'', current = Some True, tabs = Some True\<rparr>)]
       = (Returned (),
          [(''/a.rs'', Item \<lparr>content = Some ''x'', current = Some True, tabs = Some False\<rparr>)])
   \<and> \<not> currentInTabs
         (run [RemoveFromTabs ''/a.rs'']
           [(''/a.rs'', Item \<lparr>content = Some ''x'', current = Some True, tabs = Some True\<rparr>)])
   \<and> wellFormed
         [(''/x.rs'', Item \<lparr>content = Some ''x'', current = Some True, tabs = Some True\<rparr>),
          (''/w.rs'', Item \<lparr>content = Some ''w'', current = None, tabs = None\<rparr>)]
   \<and> atMostOneCurrent
         [(''/x.rs'', Item \<lparr>content = Some ''x'', current = Some True, tabs = Some True\<rparr>),
          (''/w.rs'', Item \<lparr>content = Some ''w'', current = None, tabs = None\<rparr>)]
   \<and> currentInTabs
         [(''/x.rs'', Item \<lparr>content = Some ''x'', current = Some True, tabs = Some True\<rparr>),
          (''/w.rs'', Item \<lparr>content = Some ''w'', current = None, tabs = None\<rparr>)]
   \<and> run [RenameItem ''/q.rs'' ''y.rs'', ChangeCurrentFile ''/w.rs'']
         [(''/x.rs'', Item \<lparr>content = Some ''x'', current = Some True, tabs = Some True\<rparr>),
          (''/w.rs'', Item \<lparr>content = Some ''w'', current = None, tabs = None\<rparr>)]
       = [(''/x.rs'', Item \<lparr>content = Some ''x'', current = Some False, tabs = Some True\<rparr>),
          (''/w.rs'', Item \<lparr>content = Some ''w'', current = Some True, tabs = None\<rparr>),
          (''/y.rs'', Undefined)]
   \<and> \<not> currentInTabs
         [(''/x.rs'', Item \<lparr>content = Some ''x'', current = Some False, tabs = Some True\<rparr>),
          (''/w.rs'', Item \<lparr>content = Some ''w'', current = Some True, tabs = None\<rparr>),
          (''/y.rs'', Undefined)]"
  by code_simp

text \<open>In general, closing the tab of an item while no other tab is open only clears
  its \<open>tabs\<close> flag: when the item is the current file it stays current.\<close>

lemma removeFromTabs_only_tab:
  assumes wf: "wellFormed fs" and i: "lookup fs p = Item i" and no: "\<not> otherTab p fs"
  shows "removeFromTabs p fs = (Returned (), AList.update p (Item (i\<lparr>tabs := Some False\<rparr>)) fs)"
proof -
  from wf have d: "distinct (map fst fs)" and nu: "noUndefined fs"
    by (simp_all add: wellFormed_def)
  define fs1 where "fs1 = AList.update p (Item (i\<lparr>tabs := Some False\<rparr>)) fs"
  have r: "removeFromTabs p fs = changeCurrentFileToTheLastTab fs1"
    using i by (simp add: removeFromTabs_def assign_Some fs1_def)
  have d1: "distinct (map fst fs1)" using d by (simp add: fs1_def distinct_update)
  have nu1: "noUndefined fs1" using nu by (simp add: fs1_def noUndefined_update)
  have none: "\<not> isTab (lookup fs1 k)" for k
  proof (cases "k = p")
    case True
    then show ?thesis by (simp add: fs1_def lookup_update isTab_def)
  next
    case False
    show ?thesis
    proof
      assume t: "isTab (lookup fs1 k)"
      then have t': "isTab (lookup fs k)" using False by (simp add: fs1_def lookup_update)
      then have "lookup fs k \<noteq> Undefined" using isTab_Undefined by auto
      then have "k \<in> fst ` set fs" by (rule lookup_present)
      then obtain e where e: "(k, e) \<in> set fs" by auto
      then have "lookup fs k = e" using d by (simp add: lookup_def)
      then have "otherTab p fs"
        using e t' False by (auto simp: otherTab_def list_ex_iff)
      with no show False by simp
    qed
  qed
  obtain ts where ts: "tabsOf fs1 = Returned ts" using tabsOf_Returned [OF nu1] by blast
  have "map path ts = filter (\<lambda>k. isTab (lookup fs1 k)) (map fst fs1)"
    using ts d1 by (simp add: tabsOf_paths filter_by_lookup)
  then have "ts = []" using none by simp
  then show ?thesis using r ts by (simp add: toLastTab_no_tabs fs1_def)
qed

subsection \<open>Closing a tab twice\<close>

lemma toLastTab_twice:
  assumes wf: "wellFormed fs" and one: "atMostOneCurrent fs"
  shows "changeCurrentFileToTheLastTab (snd (changeCurrentFileToTheLastTab fs))
         = changeCurrentFileToTheLastTab fs
       \<and> (\<forall>k. isTab (lookup (snd (changeCurrentFileToTheLastTab fs)) k) = isTab (lookup fs k))
       \<and> (\<forall>k i. lookup fs k = Item i \<longrightarrow>
             (\<exists>i'. lookup (snd (changeCurrentFileToTheLastTab fs)) k = Item i' \<and> tabs i' = tabs i))"
proof -
  from wf have d: "distinct (map fst fs)" and nu: "noUndefined fs"
    by (simp_all add: wellFormed_def)
  obtain ts where ts: "tabsOf fs = Returned ts" using tabsOf_Returned [OF nu] by blast
  show ?thesis
  proof (cases "ts = []")
    case True
    then show ?thesis using ts by (simp add: toLastTab_no_tabs)
  next
    case False
    define l where "l = path (last ts)"
    have lk: "l \<in> fst ` set fs" and ltab: "isTab (lookup fs l)"
      using last_tab [OF d ts False] by (simp_all add: l_def)
    then obtain j where j: "lookup fs l = Item j" and tj: "tabs j = Some True"
      by (cases "lookup fs l") (simp_all add: isTab_def)
    obtain cur where cur: "currentOf fs = Returned cur" using currentOf_Returned [OF nu] by blast
    obtain fs' t where r: "changeCurrentFile l fs = (Returned (), fs')"
      and k': "map fst fs' = map fst fs" and nu': "noUndefined fs'"
      and t: "t = Some True \<or> t = tabs j"
      and l': "\<And>k. lookup fs' k =
             (if k = l then Item (j\<lparr>current := Some True, tabs := t\<rparr>)
              else if Some k = map_option path cur
                   then (case lookup fs k of Undefined \<Rightarrow> Undefined
                         | Item j \<Rightarrow> Item (j\<lparr>current := Some False\<rparr>))
                   else lookup fs k)"
      using changeCurrentFile_effect [OF d nu cur j] by blast
    from t tj have t: "t = Some True" by auto
    have R: "changeCurrentFileToTheLastTab fs = (Returned (), fs')"
      using ts False r by (simp add: changeCurrentFileToTheLastTab_def l_def)
    have d': "distinct (map fst fs')" using d k' by simp
    have wf': "wellFormed fs'" using d' nu' by (simp add: wellFormed_def)
    have tabs_same: "isTab (lookup fs' k) = isTab (lookup fs k)" for k
      using j tj t by (auto simp: l' isTab_def split: entry.splits)
    have item_same: "\<exists>i'. lookup fs' k = Item i' \<and> tabs i' = tabs i" if "lookup fs k = Item i" for k i
      using that j tj t by (auto simp: l')
    \<comment> \<open>the second call finds the same last tab\<close>
    obtain ts' where ts': "tabsOf fs' = Returned ts'" using tabsOf_Returned [OF nu'] by blast
    have "map path ts' = filter (\<lambda>k. isTab (lookup fs' k)) (map fst fs')"
      using ts' d' by (simp add: tabsOf_paths filter_by_lookup)
    also have "\<dots> = filter (\<lambda>k. isTab (lookup fs k)) (map fst fs)"
      by (simp add: tabs_same k')
    also have "\<dots> = map path ts"
      using ts d by (simp add: tabsOf_paths filter_by_lookup)
    finally have paths: "map path ts' = map path ts" .
    then have ne': "ts' \<noteq> []" using False by auto
    have "path (last ts') = last (map path ts')" using ne' by (simp add: last_map)
    also have "\<dots> = l" using paths False by (simp add: last_map l_def)
    finally have last': "path (last ts') = l" .
    \<comment> \<open>and that tab is the one current file\<close>
    have lcur: "isCurrent (lookup fs' l)" by (simp add: l' isCurrent_def)
    have only: "k = l" if "isCurrent (lookup fs' k)" for k
      using changeCurrentFile_only_current [OF wf one, of l k] that r by simp
    obtain cur' where cur': "currentOf fs' = Returned cur'"
      using currentOf_Returned [OF nu'] by blast
    have c': "map_option path cur' = Some l"
    proof (cases cur')
      case None
      then show ?thesis using currentOf_None [of fs' l] cur' lcur by simp
    next
      case (Some f)
      then have "isCurrent (lookup fs' (path f))" using currentOf_Some [OF d'] cur' by simp
      then show ?thesis using only Some by simp
    qed
    have j': "lookup fs' l = Item (j\<lparr>current := Some True, tabs := Some True\<rparr>)"
      by (simp add: l' t)
    obtain fs'' t' where r': "changeCurrentFile l fs' = (Returned (), fs'')"
      and k'': "map fst fs'' = map fst fs'"
      and t': "t' = Some True \<or> t' = tabs (j\<lparr>current := Some True, tabs := Some True\<rparr>)"
      and l'': "\<And>k. lookup fs'' k =
             (if k = l then Item (j\<lparr>current := Some True, tabs := Some True\<rparr>\<lparr>current := Some True, tabs := t'\<rparr>)
              else if Some k = map_option path cur'
                   then (case lookup fs' k of Undefined \<Rightarrow> Undefined
                         | Item j \<Rightarrow> Item (j\<lparr>current := Some False\<rparr>))
                   else lookup fs' k)"
      using changeCurrentFile_effect [OF d' nu' cur' j'] by blast
    from t' have t': "t' = Some True" by auto
    have "fs'' = fs'"
    proof (rule files_eqI [OF k''])
      show "distinct (map fst fs'')" using d' k'' by simp
    next
      fix k
      show "lookup fs'' k = lookup fs' k"
        by (simp add: l'' t' c' j')
    qed
    then have "changeCurrentFileToTheLastTab fs' = (Returned (), fs')"
      using ts' ne' last' r' by (simp add: changeCurrentFileToTheLastTab_def)
    then have "changeCurrentFileToTheLastTab (snd (changeCurrentFileToTheLastTab fs))
         = changeCurrentFileToTheLastTab fs"
      by (simp add: R)
    moreover have "\<forall>k. isTab (lookup (snd (changeCurrentFileToTheLastTab fs)) k) = isTab (lookup fs k)"
      using tabs_same by (simp add: R)
    moreover have "\<forall>k i. lookup fs k = Item i \<longrightarrow>
             (\<exists>i'. lookup (snd (changeCurrentFileToTheLastTab fs)) k = Item i' \<and> tabs i' = tabs i)"
      using item_same by (simp add: R)
    ultimately show ?thesis by blast
  qed
qed

text \<open>
  C9, as the code has it. In a map with each key once and at most one current entry,
  closing the tab of a key twice gives the same result and leaves the same map as
  closing it once, also when a call throws.
\<close>

theorem removeFromTabs_twice:
  assumes d: "distinct (map fst fs)" and one: "atMostOneCurrent fs"
    and key: "p \<in> fst ` set fs"
  shows "removeFromTabs p (snd (removeFromTabs p fs)) = removeFromTabs p fs"
proof (cases "lookup fs p")
  case Undefined
  then show ?thesis by (simp add: removeFromTabs_def assign_None)
next
  case (Item i)
  define fs1 where "fs1 = AList.update p (Item (i\<lparr>tabs := Some False\<rparr>)) fs"
  have r: "removeFromTabs p fs = changeCurrentFileToTheLastTab fs1"
    using Item by (simp add: removeFromTabs_def assign_Some fs1_def)
  have d1: "distinct (map fst fs1)" using d by (simp add: fs1_def distinct_update)
  have l1: "lookup fs1 p = Item (i\<lparr>tabs := Some False\<rparr>)"
    by (simp add: fs1_def lookup_update)
  have cur: "\<And>k. isCurrent (lookup fs1 k) = isCurrent (lookup fs k)"
    using Item by (simp add: fs1_def lookup_update isCurrent_def)
  have one1: "atMostOneCurrent fs1"
    using one unfolding atMostOneCurrent_iff [OF d] atMostOneCurrent_iff [OF d1]
    by (simp add: cur)
  define fs2 where "fs2 = snd (changeCurrentFileToTheLastTab fs1)"
  have d2: "distinct (map fst fs2)"
    using d1 by (simp add: fs2_def keys_changeCurrentFileToTheLastTab)
  have again: "changeCurrentFileToTheLastTab fs2 = changeCurrentFileToTheLastTab fs1
      \<and> (\<exists>i'. lookup fs2 p = Item i' \<and> tabs i' = Some False)"
  proof (cases "tabsOf fs1")
    case TypeError
    then have "changeCurrentFileToTheLastTab fs1 = (TypeError, fs1)"
      by (simp add: changeCurrentFileToTheLastTab_def)
    then show ?thesis using l1 by (simp add: fs2_def)
  next
    case (Returned ts)
    then have "noUndefined fs1" by (rule tabsOf_noUndefined)
    then have wf1: "wellFormed fs1" using d1 by (simp add: wellFormed_def)
    have "\<exists>i'. lookup fs2 p = Item i' \<and> tabs i' = tabs (i\<lparr>tabs := Some False\<rparr>)"
      using toLastTab_twice [OF wf1 one1] l1 unfolding fs2_def by blast
    then show ?thesis
      using toLastTab_twice [OF wf1 one1] unfolding fs2_def by simp
  qed
  then obtain i' where i': "lookup fs2 p = Item i'" and ti': "tabs i' = Some False" by blast
  have "p \<in> fst ` set fs2" using i' by (simp add: lookup_present)
  then have "AList.update p (Item (i'\<lparr>tabs := Some False\<rparr>)) fs2 = fs2"
    using d2 i' ti' by (intro update_same) simp_all
  then have "removeFromTabs p fs2 = changeCurrentFileToTheLastTab fs2"
    using i' by (simp add: removeFromTabs_def assign_Some)
  then show ?thesis using again by (simp add: r fs2_def)
qed

text \<open>The theorem at a map with two tabs, the first current.\<close>

theorem removeFromTabs_twice_witness:
  "distinct (map fst
     [(''/a.rs'', Item \<lparr>content = Some ''x'', current = Some True, tabs = Some True\<rparr>),
      (''/b.rs'', Item \<lparr>content = Some ''y'', current = None, tabs = Some True\<rparr>)])
   \<and> atMostOneCurrent
     [(''/a.rs'', Item \<lparr>content = Some ''x'', current = Some True, tabs = Some True\<rparr>),
      (''/b.rs'', Item \<lparr>content = Some ''y'', current = None, tabs = Some True\<rparr>)]
   \<and> ''/a.rs'' \<in> fst ` set
     [(''/a.rs'', Item \<lparr>content = Some ''x'', current = Some True, tabs = Some True\<rparr>),
      (''/b.rs'', Item \<lparr>content = Some ''y'', current = None, tabs = Some True\<rparr>)]
   \<and> removeFromTabs ''/a.rs'' (snd (removeFromTabs ''/a.rs''
     [(''/a.rs'', Item \<lparr>content = Some ''x'', current = Some True, tabs = Some True\<rparr>),
      (''/b.rs'', Item \<lparr>content = Some ''y'', current = None, tabs = Some True\<rparr>)]))
     = removeFromTabs ''/a.rs''
     [(''/a.rs'', Item \<lparr>content = Some ''x'', current = Some True, tabs = Some True\<rparr>),
      (''/b.rs'', Item \<lparr>content = Some ''y'', current = None, tabs = Some True\<rparr>)]
   \<and> removeFromTabs ''/a.rs''
     [(''/a.rs'', Item \<lparr>content = Some ''x'', current = Some True, tabs = Some True\<rparr>),
      (''/b.rs'', Item \<lparr>content = Some ''y'', current = None, tabs = Some True\<rparr>)]
     = (Returned (),
        [(''/a.rs'', Item \<lparr>content = Some ''x'', current = Some False, tabs = Some False\<rparr>),
         (''/b.rs'', Item \<lparr>content = Some ''y'', current = Some True, tabs = Some True\<rparr>)])"
proof -
  have h1: "distinct (map fst
     [(''/a.rs'', Item \<lparr>content = Some ''x'', current = Some True, tabs = Some True\<rparr>),
      (''/b.rs'', Item \<lparr>content = Some ''y'', current = None, tabs = Some True\<rparr>)])"
    by simp
  have h2: "atMostOneCurrent
     [(''/a.rs'', Item \<lparr>content = Some ''x'', current = Some True, tabs = Some True\<rparr>),
      (''/b.rs'', Item \<lparr>content = Some ''y'', current = None, tabs = Some True\<rparr>)]"
    by code_simp
  have h3: "''/a.rs'' \<in> fst ` set
     [(''/a.rs'', Item \<lparr>content = Some ''x'', current = Some True, tabs = Some True\<rparr>),
      (''/b.rs'', Item \<lparr>content = Some ''y'', current = None, tabs = Some True\<rparr>)]"
    by simp
  have h4: "removeFromTabs ''/a.rs''
     [(''/a.rs'', Item \<lparr>content = Some ''x'', current = Some True, tabs = Some True\<rparr>),
      (''/b.rs'', Item \<lparr>content = Some ''y'', current = None, tabs = Some True\<rparr>)]
     = (Returned (),
        [(''/a.rs'', Item \<lparr>content = Some ''x'', current = Some False, tabs = Some False\<rparr>),
         (''/b.rs'', Item \<lparr>content = Some ''y'', current = Some True, tabs = Some True\<rparr>)])"
    by code_simp
  show ?thesis
    using removeFromTabs_twice [OF h1 h2 h3] h1 h2 h3 h4 by blast
qed

text \<open>
  C9 as stated fails in a map with two current entries: the first call clears the flag
  of the first of them, the second call that of the other.
\<close>

theorem removeFromTabs_twice_counterexample:
  "''/a.rs'' \<in> fst ` set
     [(''/a.rs'', Item \<lparr>content = Some ''x'', current = Some True, tabs = Some True\<rparr>),
      (''/b.rs'', Item \<lparr>content = Some ''y'', current = Some True, tabs = Some True\<rparr>),
      (''/c.rs'', Item \<lparr>content = Some ''z'', current = None, tabs = Some True\<rparr>)]
   \<and> removeFromTabs ''/a.rs''
     [(''/a.rs'', Item \<lparr>content = Some ''x'', current = Some True, tabs = Some True\<rparr>),
      (''/b.rs'', Item \<lparr>content = Some ''y'', current = Some True, tabs = Some True\<rparr>),
      (''/c.rs'', Item \<lparr>content = Some ''z'', current = None, tabs = Some True\<rparr>)]
     = (Returned (),
        [(''/a.rs'', Item \<lparr>content = Some ''x'', current = Some False, tabs = Some False\<rparr>),
         (''/b.rs'', Item \<lparr>content = Some ''y'', current = Some True, tabs = Some True\<rparr>),
         (''/c.rs'', Item \<lparr>content = Some ''z'', current = Some True, tabs = Some True\<rparr>)])
   \<and> removeFromTabs ''/a.rs''
        [(''/a.rs'', Item \<lparr>content = Some ''x'', current = Some False, tabs = Some False\<rparr>),
         (''/b.rs'', Item \<lparr>content = Some ''y'', current = Some True, tabs = Some True\<rparr>),
         (''/c.rs'', Item \<lparr>content = Some ''z'', current = Some True, tabs = Some True\<rparr>)]
     = (Returned (),
        [(''/a.rs'', Item \<lparr>content = Some ''x'', current = Some False, tabs = Some False\<rparr>),
         (''/b.rs'', Item \<lparr>content = Some ''y'', current = Some False, tabs = Some True\<rparr>),
         (''/c.rs'', Item \<lparr>content = Some ''z'', current = Some True, tabs = Some True\<rparr>)])
   \<and> removeFromTabs ''/a.rs'' (snd (removeFromTabs ''/a.rs''
     [(''/a.rs'', Item \<lparr>content = Some ''x'', current = Some True, tabs = Some True\<rparr>),
      (''/b.rs'', Item \<lparr>content = Some ''y'', current = Some True, tabs = Some True\<rparr>),
      (''/c.rs'', Item \<lparr>content = Some ''z'', current = None, tabs = Some True\<rparr>)]))
     \<noteq> removeFromTabs ''/a.rs''
     [(''/a.rs'', Item \<lparr>content = Some ''x'', current = Some True, tabs = Some True\<rparr>),
      (''/b.rs'', Item \<lparr>content = Some ''y'', current = Some True, tabs = Some True\<rparr>),
      (''/c.rs'', Item \<lparr>content = Some ''z'', current = None, tabs = Some True\<rparr>)]"
  by code_simp

end
